theory Spec2Isabelle
  imports Main "HOL-Library.Word" "HOL-Library.Sublist"
begin

section \<open>Python values used by main.py\<close>

text \<open>
  A Python \<open>str\<close> is a sequence of Unicode code points, a \<open>bytes\<close> object a sequence of
  octets. The two are kept apart, because the handler decodes the upload to text and
  encodes the answer back to octets. ASCII literals of the source are written with
  \<open>ascii\<close>.
\<close>

type_synonym pystr = "nat list"
type_synonym byte = "8 word"
type_synonym bytes = "byte list"

definition ascii :: "string \<Rightarrow> pystr" where
  "ascii s = map of_char s"

text \<open>
  Truthiness of an \<open>Optional[str]\<close>: \<open>None\<close> and the empty string are falsy.
  \<open>str_or x d\<close> is the expression \<open>x or d\<close>.
\<close>

definition truthy :: "pystr option \<Rightarrow> bool" where
  "truthy x = (case x of None \<Rightarrow> False | Some s \<Rightarrow> s \<noteq> [])"

definition str_or :: "pystr option \<Rightarrow> pystr \<Rightarrow> pystr" where
  "str_or x d = (case x of None \<Rightarrow> d | Some s \<Rightarrow> if s = [] then d else s)"

text \<open>
  An exception is its class name and the text \<open>str(e)\<close>. Only subclasses of
  \<open>Exception\<close> are modelled: they are what \<open>except Exception\<close> catches, and what a
  remote call, a codec or an attribute lookup raises.
\<close>

datatype py_exception = PyExc string pystr

definition AttributeError :: "string \<Rightarrow> string \<Rightarrow> py_exception" where
  "AttributeError ty attr =
     PyExc ''AttributeError''
       (ascii ([CHR 0x27] @ ty @ [CHR 0x27] @ '' object has no attribute ''
               @ [CHR 0x27] @ attr @ [CHR 0x27]))"

text \<open>
  For a \<open>UnicodeEncodeError\<close> the message is cut down to codec and reason; the
  interpreter's text also names the offending character and its position.
\<close>

definition UnicodeEncodeError :: "string \<Rightarrow> string \<Rightarrow> py_exception" where
  "UnicodeEncodeError codec reason =
     PyExc ''UnicodeEncodeError''
       (ascii ([CHR 0x27] @ codec @ [CHR 0x27] @ '' codec cannot encode: '' @ reason))"

subsection \<open>The UTF-8 codec\<close>

definition is_surrogate :: "nat \<Rightarrow> bool" where
  "is_surrogate c \<longleftrightarrow> 0xD800 \<le> c \<and> c \<le> 0xDFFF"

definition is_scalar :: "nat \<Rightarrow> bool" where
  "is_scalar c \<longleftrightarrow> c \<le> 0x10FFFF \<and> \<not> is_surrogate c"

definition byte_of :: "nat \<Rightarrow> byte" where
  "byte_of n = of_nat n"

definition utf8_encode_cp :: "nat \<Rightarrow> bytes" where
  "utf8_encode_cp c =
     (if c < 0x80 then [byte_of c]
      else if c < 0x800 then [byte_of (0xC0 + c div 64), byte_of (0x80 + c mod 64)]
      else if c < 0x10000 then
        [byte_of (0xE0 + c div 4096), byte_of (0x80 + c div 64 mod 64),
         byte_of (0x80 + c mod 64)]
      else
        [byte_of (0xF0 + c div 262144), byte_of (0x80 + c div 4096 mod 64),
         byte_of (0x80 + c div 64 mod 64), byte_of (0x80 + c mod 64)])"

text \<open>
  \<open>s.encode("utf-8")\<close>: a lone surrogate raises. No \<open>str\<close> holds a code point above
  U+10FFFF; the model refuses such a list in the same way.
\<close>

definition utf8_encode :: "pystr \<Rightarrow> py_exception + bytes" where
  "utf8_encode s =
     (if list_all is_scalar s then Inr (concat (map utf8_encode_cp s))
      else Inl (UnicodeEncodeError ''utf-8'' ''surrogates not allowed''))"

text \<open>
  \<open>raw.decode("utf-8", errors="replace")\<close>. \<open>utf8_step b bs\<close> decodes the sequence
  that starts with \<open>b\<close> and returns its code point with the number of octets of \<open>bs\<close> it
  has used. An ill-formed sequence gives U+FFFD for its longest well-formed prefix
  (one octet for a bad start octet), and decoding goes on behind that prefix: the
  interpreter's decoder reports the error range \<open>[start, start + n)\<close> with \<open>n\<close> the
  index of the first bad octet, or the rest of the input when the data ends early.
\<close>

definition is_cont :: "byte \<Rightarrow> bool" where
  "is_cont b \<longleftrightarrow> 0x80 \<le> unat b \<and> unat b < 0xC0"

text \<open>The code point of a sequence of two, three and four octets, from their values.\<close>

definition cp2 :: "nat \<Rightarrow> nat \<Rightarrow> nat" where
  "cp2 c u2 = (c - 0xC0) * 64 + (u2 - 0x80)"

definition cp3 :: "nat \<Rightarrow> nat \<Rightarrow> nat \<Rightarrow> nat" where
  "cp3 c u2 u3 = (c - 0xE0) * 4096 + (u2 - 0x80) * 64 + (u3 - 0x80)"

definition cp4 :: "nat \<Rightarrow> nat \<Rightarrow> nat \<Rightarrow> nat \<Rightarrow> nat" where
  "cp4 c u2 u3 u4 = (c - 0xF0) * 262144 + (u2 - 0x80) * 4096 + (u3 - 0x80) * 64 + (u4 - 0x80)"

definition utf8_step :: "byte \<Rightarrow> bytes \<Rightarrow> nat \<times> nat" where
  "utf8_step b bs =
    (let c = unat b in
     if c < 0x80 then (c, 0)
     else if c < 0xC2 then (0xFFFD, 0)
     else if c < 0xE0 then
       (case bs of
          [] \<Rightarrow> (0xFFFD, 0)
        | b2 # r2 \<Rightarrow>
            if is_cont b2 then (cp2 c (unat b2), 1)
            else (0xFFFD, 0))
     else if c < 0xF0 then
       (case bs of
          [] \<Rightarrow> (0xFFFD, 0)
        | b2 # r2 \<Rightarrow>
            if \<not> is_cont b2 \<or> (if unat b2 < 0xA0 then c = 0xE0 else c = 0xED)
            then (0xFFFD, 0)
            else (case r2 of
                    [] \<Rightarrow> (0xFFFD, 1)
                  | b3 # r3 \<Rightarrow>
                      if is_cont b3
                      then (cp3 c (unat b2) (unat b3), 2)
                      else (0xFFFD, 1)))
     else if c < 0xF5 then
       (case bs of
          [] \<Rightarrow> (0xFFFD, 0)
        | b2 # r2 \<Rightarrow>
            if \<not> is_cont b2 \<or> (if unat b2 < 0x90 then c = 0xF0 else c = 0xF4)
            then (0xFFFD, 0)
            else (case r2 of
                    [] \<Rightarrow> (0xFFFD, 1)
                  | b3 # r3 \<Rightarrow>
                      if \<not> is_cont b3 then (0xFFFD, 1)
                      else (case r3 of
                              [] \<Rightarrow> (0xFFFD, 2)
                            | b4 # r4 \<Rightarrow>
                                if is_cont b4
                                then (cp4 c (unat b2) (unat b3) (unat b4), 3)
                                else (0xFFFD, 2))))
     else (0xFFFD, 0))"

fun utf8_decode_replace :: "bytes \<Rightarrow> pystr" where
  "utf8_decode_replace [] = []"
| "utf8_decode_replace (b # bs) =
    (case utf8_step b bs of (cp, k) \<Rightarrow> cp # utf8_decode_replace (drop k bs))"

subsection \<open>\<open>str.lower\<close> and \<open>str.endswith\<close>\<close>

text \<open>
  \<open>lower_cp\<close> gives the lowercase of one code point. Outside ASCII only U+0130 and
  U+212A have a lowercase that contains an ASCII character; every other non-ASCII
  code point is mapped by Unicode to non-ASCII code points and is left in place here,
  which keeps a test of the lowered text against an ASCII suffix exact.
\<close>

definition lower_cp :: "nat \<Rightarrow> pystr" where
  "lower_cp c =
     (if 0x41 \<le> c \<and> c \<le> 0x5A then [c + 32]
      else if c = 0x130 then [0x69, 0x307]
      else if c = 0x212A then [0x6B]
      else [c])"

definition py_lower :: "pystr \<Rightarrow> pystr" where
  "py_lower s = concat (map lower_cp s)"

text \<open>\<open>s.endswith(t)\<close> for a tuple \<open>t\<close> of suffixes.\<close>

definition py_endswith :: "pystr \<Rightarrow> pystr list \<Rightarrow> bool" where
  "py_endswith s sufs = list_ex (\<lambda>suf. suffix suf s) sufs"

subsection \<open>Decoded JSON\<close>

datatype pyfloat = Finite int int | Infinite bool | NaN

datatype json =
    JNull
  | JBool bool
  | JInt int
  | JFloat pyfloat
  | JStr pystr
  | JArr "json list"
  | JObj "(pystr \<times> json) list"

fun type_name :: "json \<Rightarrow> string" where
  "type_name JNull = ''NoneType''"
| "type_name (JBool _) = ''bool''"
| "type_name (JInt _) = ''int''"
| "type_name (JFloat _) = ''float''"
| "type_name (JStr _) = ''str''"
| "type_name (JArr _) = ''list''"
| "type_name (JObj _) = ''dict''"

text \<open>Truthiness of a decoded value, as \<open>not session_id\<close> tests it.\<close>

fun json_truthy :: "json \<Rightarrow> bool" where
  "json_truthy JNull = False"
| "json_truthy (JBool b) = b"
| "json_truthy (JInt i) = (i \<noteq> 0)"
| "json_truthy (JFloat (Finite m e)) = (m \<noteq> 0)"
| "json_truthy (JFloat _) = True"
| "json_truthy (JStr s) = (s \<noteq> [])"
| "json_truthy (JArr xs) = (xs \<noteq> [])"
| "json_truthy (JObj kvs) = (kvs \<noteq> [])"

text \<open>
  \<open>d.get(k, dflt)\<close>. Only a dict has \<open>get\<close>; of a repeated key the decoder keeps the
  last value.
\<close>

definition py_get :: "json \<Rightarrow> pystr \<Rightarrow> json \<Rightarrow> py_exception + json" where
  "py_get d k dflt =
     (case d of
        JObj kvs \<Rightarrow> Inr (case map_of (rev kvs) k of None \<Rightarrow> dflt | Some v \<Rightarrow> v)
      | _ \<Rightarrow> Inl (AttributeError (type_name d) ''get''))"

section \<open>Configuration and the remote services\<close>

text \<open>The two module-level values read with \<open>os.getenv\<close>.\<close>

record config =
  LUAOBFUSCATOR_API_KEY :: "pystr option"
  WEBHOOK_URL :: "pystr option"

text \<open>
  What \<open>session.post\<close> gives back: the call raises, or it yields a response with a
  status, whose \<open>text()\<close> and \<open>json()\<close> each return or raise.
\<close>

record http_response =
  resp_status :: int
  resp_text :: "py_exception + pystr"
  resp_json :: "py_exception + json"

datatype http_outcome = Raises py_exception | Responds http_response

text \<open>
  The behaviour of the world outside the process, one function per endpoint, from
  what the request carries: the webhook (URL, file name, file octets), the
  session-creation endpoint (API key, script) and the transform endpoint (API key,
  session identifier). A call that runs into its timeout raises, like any other
  transport failure.
\<close>

record remote =
  webhook_post :: "pystr \<Rightarrow> pystr \<Rightarrow> bytes \<Rightarrow> http_outcome"
  newscript_post :: "pystr \<Rightarrow> pystr \<Rightarrow> http_outcome"
  obfuscate_post :: "pystr \<Rightarrow> json \<Rightarrow> http_outcome"

text \<open>
  The observable steps of one request, in the order they happen: the connection
  context opened and closed by \<open>async with aiohttp.ClientSession(timeout=...)\<close>, the
  two awaited calls with their arguments, and the requests sent. Log lines are not
  recorded.
\<close>

datatype event =
    SessionOpen nat
  | SessionClose
  | Call_send_to_webhook pystr pystr
  | Call_obfuscate_script pystr
  | WebhookPost pystr pystr bytes
  | NewscriptPost pystr pystr
  | ObfuscatePost pystr json

section \<open>send_to_webhook\<close>

text \<open>The body of the \<open>try\<close> block, for a configured URL.\<close>

definition send_to_webhook_try ::
  "remote \<Rightarrow> pystr \<Rightarrow> pystr \<Rightarrow> pystr \<Rightarrow> (py_exception + unit) \<times> event list" where
  "send_to_webhook_try env url filename content =
     (case utf8_encode content of
        Inl e \<Rightarrow> (Inl e, [])
      | Inr file_bytes \<Rightarrow>
          (case webhook_post env url filename file_bytes of
             Raises e \<Rightarrow> (Inl e, [WebhookPost url filename file_bytes])
           | Responds resp \<Rightarrow>
               if resp_status resp \<notin> {200, 204} then
                 (case resp_text resp of
                    Inl e \<Rightarrow> (Inl e, [WebhookPost url filename file_bytes])
                  | Inr body \<Rightarrow> (Inr (), [WebhookPost url filename file_bytes]))
               else (Inr (), [WebhookPost url filename file_bytes])))"

definition send_to_webhook ::
  "config \<Rightarrow> remote \<Rightarrow> pystr \<Rightarrow> pystr \<Rightarrow> (py_exception + unit) \<times> event list" where
  "send_to_webhook cfg env filename content =
     (case WEBHOOK_URL cfg of
        None \<Rightarrow> (Inr (), [])
      | Some url \<Rightarrow>
          if url = [] then (Inr (), [])
          else (case send_to_webhook_try env url filename content of
                  (Inl e, tr) \<Rightarrow> (Inr (), tr)
                | (Inr u, tr) \<Rightarrow> (Inr u, tr)))"

section \<open>obfuscate_script\<close>

text \<open>
  The body of the \<open>try\<close> block, for a configured key. The function returns the script
  or whatever the service sent under \<open>"code"\<close>, so its result is a decoded value.
\<close>

definition obfuscate_script_try ::
  "remote \<Rightarrow> pystr \<Rightarrow> pystr \<Rightarrow> (py_exception + json) \<times> event list" where
  "obfuscate_script_try env key script =
     (let tr1 = [NewscriptPost key script] in
      case newscript_post env key script of
        Raises e \<Rightarrow> (Inl e, tr1)
      | Responds resp \<Rightarrow>
          if resp_status resp \<noteq> 200 then
            (case resp_text resp of
               Inl e \<Rightarrow> (Inl e, tr1)
             | Inr body \<Rightarrow> (Inr (JStr script), tr1))
          else
            (case resp_json resp of
               Inl e \<Rightarrow> (Inl e, tr1)
             | Inr data \<Rightarrow>
                 (case py_get data (ascii ''sessionId'') JNull of
                    Inl e \<Rightarrow> (Inl e, tr1)
                  | Inr session_id \<Rightarrow>
                      if \<not> json_truthy session_id then (Inr (JStr script), tr1)
                      else
                        (let tr2 = tr1 @ [ObfuscatePost key session_id] in
                         case obfuscate_post env key session_id of
                           Raises e \<Rightarrow> (Inl e, tr2)
                         | Responds resp2 \<Rightarrow>
                             if resp_status resp2 \<noteq> 200 then
                               (case resp_text resp2 of
                                  Inl e \<Rightarrow> (Inl e, tr2)
                                | Inr body \<Rightarrow> (Inr (JStr script), tr2))
                             else
                               (case resp_json resp2 of
                                  Inl e \<Rightarrow> (Inl e, tr2)
                                | Inr data2 \<Rightarrow>
                                    (py_get data2 (ascii ''code'') (JStr script), tr2))))))"

definition obfuscate_script ::
  "config \<Rightarrow> remote \<Rightarrow> pystr \<Rightarrow> (py_exception + json) \<times> event list" where
  "obfuscate_script cfg env script =
     (case LUAOBFUSCATOR_API_KEY cfg of
        None \<Rightarrow> (Inr (JStr script), [])
      | Some key \<Rightarrow>
          if key = [] then (Inr (JStr script), [])
          else (case obfuscate_script_try env key script of
                  (Inl e, tr) \<Rightarrow> (Inr (JStr script), tr)
                | (Inr v, tr) \<Rightarrow> (Inr v, tr)))"

section \<open>The handler of POST /obfuscate\<close>

text \<open>An \<open>UploadFile\<close>: its optional name and what \<open>await file.read()\<close> returns.\<close>

record upload_file =
  filename :: "pystr option"
  contents :: bytes

datatype response =
    HTMLResponse pystr nat
  | StreamingResponse bytes pystr "(pystr \<times> pystr) list"

fun status_code :: "response \<Rightarrow> nat" where
  "status_code (HTMLResponse content code) = code"
| "status_code (StreamingResponse body media_type headers) = 200"

definition no_input_page :: pystr where
  "no_input_page =
     ascii (''<p style='' @ [CHR 0x27] @ ''color:red'' @ [CHR 0x27]
            @ ''>Error: No input provided.</p>'')"

definition error_page :: "py_exception \<Rightarrow> pystr" where
  "error_page e =
     (case e of PyExc cls msg \<Rightarrow>
        ascii (''<p style='' @ [CHR 0x27] @ ''color:red'' @ [CHR 0x27] @ ''>Error: '')
        @ msg @ ascii ''</p>'')"

text \<open>
  Lines 280 to 286: the source name and the text of the submission. An \<open>UploadFile\<close>
  object is always truthy, so \<open>if file\<close> asks whether a file part came with the form.
  The form field \<open>filename\<close> of the handler is called \<open>requested\<close> below, to keep it
  apart from the name of the uploaded file.
\<close>

definition incoming :: "upload_file option \<Rightarrow> pystr option \<Rightarrow> pystr \<times> pystr" where
  "incoming file script =
     (case file of
        Some f \<Rightarrow>
          (str_or (filename f) (ascii ''uploaded_script.lua''),
           utf8_decode_replace (contents f))
      | None \<Rightarrow> (ascii ''pasted_script.lua'', str_or script []))"

text \<open>Lines 296 to 298: the name of the download.\<close>

definition out_name :: "pystr option \<Rightarrow> pystr \<Rightarrow> pystr" where
  "out_name requested incoming_name =
     (let name = str_or requested (ascii ''obfuscated_'' @ incoming_name)
      in if \<not> py_endswith (py_lower name) [ascii ''.lua'', ascii ''.txt'']
         then name @ ascii ''.lua'' else name)"

definition content_disposition :: "pystr \<Rightarrow> pystr \<times> pystr" where
  "content_disposition name =
     (ascii ''Content-Disposition'', ascii ''attachment; filename='' @ [0x22] @ name @ [0x22])"

text \<open>
  \<open>obfuscated.encode("utf-8")\<close>, on whatever \<open>obfuscate_script\<close> returned: only a
  \<open>str\<close> has \<open>encode\<close>.
\<close>

definition encode_result :: "json \<Rightarrow> py_exception + bytes" where
  "encode_result v =
     (case v of
        JStr s \<Rightarrow> utf8_encode s
      | _ \<Rightarrow> Inl (AttributeError (type_name v) ''encode''))"

text \<open>
  The constructor of the framework's \<open>StreamingResponse\<close> encodes every header as
  Latin-1 and raises on a code point above U+00FF.
\<close>

definition new_StreamingResponse ::
  "bytes \<Rightarrow> pystr \<Rightarrow> (pystr \<times> pystr) list \<Rightarrow> py_exception + response" where
  "new_StreamingResponse body media_type headers =
     (if list_all (\<lambda>(k, v). list_all (\<lambda>c. c < 256) (k @ v)) headers
      then Inr (StreamingResponse body media_type headers)
      else Inl (UnicodeEncodeError ''latin-1'' ''ordinal not in range(256)''))"

text \<open>The \<open>try\<close> block of the handler.\<close>

definition obfuscate_try ::
  "config \<Rightarrow> remote \<Rightarrow> upload_file option \<Rightarrow> pystr option \<Rightarrow> pystr option
     \<Rightarrow> (py_exception + response) \<times> event list" where
  "obfuscate_try cfg env file script requested =
     (case incoming file script of (incoming_name, content) \<Rightarrow>
      case send_to_webhook cfg env incoming_name content of (r1, tr1) \<Rightarrow>
        let tr_a = [SessionOpen 30, Call_send_to_webhook incoming_name content] @ tr1 in
        (case r1 of
           Inl e \<Rightarrow> (Inl e, tr_a @ [SessionClose])
         | Inr u \<Rightarrow>
            (case obfuscate_script cfg env content of (r2, tr2) \<Rightarrow>
               let tr_b = tr_a @ [Call_obfuscate_script content] @ tr2 @ [SessionClose] in
               (case r2 of
                  Inl e \<Rightarrow> (Inl e, tr_b)
                | Inr obfuscated \<Rightarrow>
                    (case encode_result obfuscated of
                       Inl e \<Rightarrow> (Inl e, tr_b)
                     | Inr buf \<Rightarrow>
                         (new_StreamingResponse buf (ascii ''text/plain'')
                            [content_disposition (out_name requested incoming_name)],
                          tr_b))))))"

definition obfuscate ::
  "config \<Rightarrow> remote \<Rightarrow> upload_file option \<Rightarrow> pystr option \<Rightarrow> pystr option
     \<Rightarrow> response \<times> event list" where
  "obfuscate cfg env file script requested =
     (if file = None \<and> \<not> truthy script then (HTMLResponse no_input_page 400, [])
      else (case obfuscate_try cfg env file script requested of
              (Inl e, tr) \<Rightarrow> (HTMLResponse (error_page e) 500, tr)
            | (Inr r, tr) \<Rightarrow> (r, tr)))"

section \<open>Notions of the specification\<close>

text \<open>
  The session identifier of a decoded session body, as the specification speaks of
  it: the body is an object and carries a non-empty value under \<open>"sessionId"\<close>.
\<close>

definition session_id_of :: "json \<Rightarrow> json option" where
  "session_id_of data =
     (case data of
        JObj kvs \<Rightarrow>
          (case map_of (rev kvs) (ascii ''sessionId'') of
             None \<Rightarrow> None
           | Some v \<Rightarrow> if json_truthy v then Some v else None)
      | _ \<Rightarrow> None)"

text \<open>
  The ways in which the exchange with the obfuscation service fails: a call that
  raises, a status other than 200, a body that is not JSON, a session body without a
  session identifier, a transform body that is not an object.
\<close>

inductive exchange_fails :: "remote \<Rightarrow> pystr \<Rightarrow> pystr \<Rightarrow> bool"
  for env :: remote and key :: pystr and script :: pystr where
  session_raises:
    "newscript_post env key script = Raises e \<Longrightarrow> exchange_fails env key script"
| session_status:
    "newscript_post env key script = Responds r \<Longrightarrow> resp_status r \<noteq> 200
       \<Longrightarrow> exchange_fails env key script"
| session_not_json:
    "newscript_post env key script = Responds r \<Longrightarrow> resp_json r = Inl e
       \<Longrightarrow> exchange_fails env key script"
| session_without_id:
    "newscript_post env key script = Responds r \<Longrightarrow> resp_json r = Inr data
       \<Longrightarrow> session_id_of data = None \<Longrightarrow> exchange_fails env key script"
| transform_raises:
    "newscript_post env key script = Responds r \<Longrightarrow> resp_json r = Inr data
       \<Longrightarrow> session_id_of data = Some sid \<Longrightarrow> obfuscate_post env key sid = Raises e
       \<Longrightarrow> exchange_fails env key script"
| transform_status:
    "newscript_post env key script = Responds r \<Longrightarrow> resp_json r = Inr data
       \<Longrightarrow> session_id_of data = Some sid \<Longrightarrow> obfuscate_post env key sid = Responds r2
       \<Longrightarrow> resp_status r2 \<noteq> 200 \<Longrightarrow> exchange_fails env key script"
| transform_not_json:
    "newscript_post env key script = Responds r \<Longrightarrow> resp_json r = Inr data
       \<Longrightarrow> session_id_of data = Some sid \<Longrightarrow> obfuscate_post env key sid = Responds r2
       \<Longrightarrow> resp_json r2 = Inl e \<Longrightarrow> exchange_fails env key script"
| transform_not_object:
    "newscript_post env key script = Responds r \<Longrightarrow> resp_json r = Inr data
       \<Longrightarrow> session_id_of data = Some sid \<Longrightarrow> obfuscate_post env key sid = Responds r2
       \<Longrightarrow> resp_json r2 = Inr data2 \<Longrightarrow> type_name data2 \<noteq> ''dict''
       \<Longrightarrow> exchange_fails env key script"

code_pred exchange_fails .



text \<open>
  The output filename in the words of the specification: the requested name if there
  is one, else \<open>"obfuscated_"\<close> before the source name; then \<open>".lua"\<close> is appended
  unless the lowercased name ends in \<open>".lua"\<close> or \<open>".txt"\<close>.
\<close>

definition spec_out_name :: "pystr option \<Rightarrow> pystr \<Rightarrow> pystr" where
  "spec_out_name requested source_name =
     (let name = (case requested of
                    Some r \<Rightarrow> r
                  | None \<Rightarrow> ascii ''obfuscated_'' @ source_name)
      in if suffix (ascii ''.lua'') (py_lower name) \<or> suffix (ascii ''.txt'') (py_lower name)
         then name else name @ ascii ''.lua'')"

section \<open>Example configurations, services and uploads\<close>

definition no_config :: config where
  "no_config = \<lparr>LUAOBFUSCATOR_API_KEY = None, WEBHOOK_URL = None\<rparr>"

definition full_config :: config where
  "full_config =
     \<lparr>LUAOBFUSCATOR_API_KEY = Some (ascii ''key''), WEBHOOK_URL = Some (ascii ''http://hook'')\<rparr>"

definition refused :: http_outcome where
  "refused = Raises (PyExc ''ClientConnectorError'' (ascii ''Cannot connect to host''))"

definition reply :: "int \<Rightarrow> json \<Rightarrow> http_outcome" where
  "reply st j = Responds \<lparr>resp_status = st, resp_text = Inr [], resp_json = Inr j\<rparr>"

definition offline :: remote where
  "offline =
     \<lparr>webhook_post = (\<lambda>url name body. refused),
      newscript_post = (\<lambda>key script. refused),
      obfuscate_post = (\<lambda>key sid. refused)\<rparr>"

definition unavailable :: remote where
  "unavailable =
     \<lparr>webhook_post = (\<lambda>url name body. reply 204 JNull),
      newscript_post = (\<lambda>key script. reply 503 JNull),
      obfuscate_post = (\<lambda>key sid. reply 200 (JObj [(ascii ''code'', JStr (ascii ''return 1''))]))\<rparr>"

definition working :: remote where
  "working =
     \<lparr>webhook_post = (\<lambda>url name body. reply 204 JNull),
      newscript_post = (\<lambda>key script. reply 200 (JObj [(ascii ''sessionId'', JStr (ascii ''s1''))])),
      obfuscate_post = (\<lambda>key sid. reply 200 (JObj [(ascii ''code'', JStr (ascii ''return 1''))]))\<rparr>"

definition test_lua :: upload_file where
  "test_lua = \<lparr>filename = Some (ascii ''test.lua''), contents = map byte_of (ascii ''print(hi)'')\<rparr>"

definition broken_lua :: upload_file where
  "broken_lua = \<lparr>filename = Some (ascii ''a.lua''), contents = [0xFF]\<rparr>"

text \<open>An upload that ends in the first two octets of U+20AC, which takes three.\<close>

definition cut_lua :: upload_file where
  "cut_lua =
     \<lparr>filename = Some (ascii ''a.lua''), contents = map byte_of (ascii ''x=1'') @ [0xE2, 0x82]\<rparr>"

definition nameless :: upload_file where
  "nameless = \<lparr>filename = None, contents = map byte_of (ascii ''x=1'')\<rparr>"

section \<open>Properties of the two remote operations\<close>

lemma send_to_webhook_returns: "fst (send_to_webhook cfg env name content) = Inr ()"
  by (simp add: send_to_webhook_def split: option.splits prod.splits sum.splits)

lemma obfuscate_script_returns: "\<exists>v. fst (obfuscate_script cfg env script) = Inr v"
  by (simp add: obfuscate_script_def split: option.splits prod.splits sum.splits)

lemma obfuscate_script_unconfigured:
  "\<not> truthy (LUAOBFUSCATOR_API_KEY cfg) \<Longrightarrow> obfuscate_script cfg env script = (Inr (JStr script), [])"
  by (simp add: obfuscate_script_def truthy_def split: option.splits)

lemma session_id_of_None:
  "session_id_of data = None \<Longrightarrow>
     (case py_get data (ascii ''sessionId'') JNull of Inl e \<Rightarrow> True | Inr v \<Rightarrow> \<not> json_truthy v)"
  by (cases data) (simp_all add: session_id_of_def py_get_def split: option.splits if_splits)

lemma session_id_of_Some:
  "session_id_of data = Some sid \<Longrightarrow>
     py_get data (ascii ''sessionId'') JNull = Inr sid \<and> json_truthy sid"
  by (cases data) (simp_all add: session_id_of_def py_get_def split: option.splits if_splits)

lemma py_get_not_dict: "type_name d \<noteq> ''dict'' \<Longrightarrow> \<exists>e. py_get d k x = Inl e"
  by (cases d) (simp_all add: py_get_def)

lemma exchange_fails_try:
  assumes "exchange_fails env key script"
  shows "fst (obfuscate_script_try env key script) = Inr (JStr script)
           \<or> (\<exists>e. fst (obfuscate_script_try env key script) = Inl e)"
  using assms
proof cases
  case (session_raises e)
  then show ?thesis by (simp add: obfuscate_script_try_def)
next
  case (session_status r)
  then show ?thesis by (simp add: obfuscate_script_try_def Let_def split: sum.splits)
next
  case (session_not_json r e)
  then show ?thesis by (simp add: obfuscate_script_try_def Let_def split: sum.splits)
next
  case (session_without_id r data)
  then show ?thesis
    using session_id_of_None [of data]
    by (simp add: obfuscate_script_try_def Let_def split: sum.splits)
next
  case (transform_raises r data sid e)
  then show ?thesis
    using session_id_of_Some [of data sid]
    by (simp add: obfuscate_script_try_def Let_def split: sum.splits)
next
  case (transform_status r data sid r2)
  then show ?thesis
    using session_id_of_Some [of data sid]
    by (simp add: obfuscate_script_try_def Let_def split: sum.splits)
next
  case (transform_not_json r data sid r2 e)
  then show ?thesis
    using session_id_of_Some [of data sid]
    by (simp add: obfuscate_script_try_def Let_def split: sum.splits)
next
  case (transform_not_object r data sid r2 data2)
  then show ?thesis
    using session_id_of_Some [of data sid] py_get_not_dict [of data2 "ascii ''code''" "JStr script"]
    by (auto simp add: obfuscate_script_try_def Let_def split: sum.splits)
qed

lemma exchange_fails_script:
  assumes "LUAOBFUSCATOR_API_KEY cfg = Some key" "exchange_fails env key script"
  shows "fst (obfuscate_script cfg env script) = Inr (JStr script)"
  using exchange_fails_try [OF assms(2)] assms(1)
  by (auto simp add: obfuscate_script_def split: prod.splits sum.splits)

text \<open>
  Claim C2. \<open>obfuscate_script\<close> never raises: whatever the configuration, the
  services and the script, it returns a value. Without a configured key, and on every
  failure of the exchange (a call that raises, a status other than 200, a body that
  is not JSON, a session body without a session identifier, a transform body that is
  not an object), the value is the script as it was passed in.
\<close>

theorem obfuscate_script_never_raises:
  "(\<exists>v. fst (obfuscate_script cfg env script) = Inr v) \<and>
   (\<not> truthy (LUAOBFUSCATOR_API_KEY cfg) \<longrightarrow>
      fst (obfuscate_script cfg env script) = Inr (JStr script)) \<and>
   (LUAOBFUSCATOR_API_KEY cfg = Some key \<and> exchange_fails env key script \<longrightarrow>
      fst (obfuscate_script cfg env script) = Inr (JStr script))"
  using obfuscate_script_returns [of cfg env script]
    obfuscate_script_unconfigured [of cfg env script]
    exchange_fails_script [of cfg key env script]
  by simp

theorem obfuscate_script_never_raises_witness:
  "LUAOBFUSCATOR_API_KEY full_config = Some (ascii ''key'') \<and>
   exchange_fails unavailable (ascii ''key'') (ascii ''x=1'') \<and>
   fst (obfuscate_script full_config unavailable (ascii ''x=1'')) = Inr (JStr (ascii ''x=1''))"
proof -
  have k: "LUAOBFUSCATOR_API_KEY full_config = Some (ascii ''key'')"
    by (simp add: full_config_def)
  have f: "exchange_fails unavailable (ascii ''key'') (ascii ''x=1'')"
    by (rule session_status [of _ _ _ "\<lparr>resp_status = 503, resp_text = Inr [], resp_json = Inr JNull\<rparr>"])
       (simp_all add: unavailable_def reply_def)
  from obfuscate_script_never_raises [of full_config unavailable "ascii ''x=1''" "ascii ''key''"] k f
  show ?thesis by simp
qed

text \<open>
  Claim C5. When the session-creation call answers with a status other than 200,
  \<open>obfuscate_script\<close> returns the script it was given, and the only request it has
  sent is that first one: the transform request is never made.
\<close>

theorem session_refused_no_transform:
  assumes "LUAOBFUSCATOR_API_KEY cfg = Some key" "key \<noteq> []"
    "newscript_post env key script = Responds r" "resp_status r \<noteq> 200"
  shows "obfuscate_script cfg env script = (Inr (JStr script), [NewscriptPost key script])"
  using assms
  by (simp add: obfuscate_script_def obfuscate_script_try_def Let_def split: sum.splits)

theorem session_refused_no_transform_witness:
  "LUAOBFUSCATOR_API_KEY full_config = Some (ascii ''key'') \<and> ascii ''key'' \<noteq> [] \<and>
   newscript_post unavailable (ascii ''key'') (ascii ''x=1'') = reply 503 JNull \<and>
   obfuscate_script full_config unavailable (ascii ''x=1'')
     = (Inr (JStr (ascii ''x=1'')), [NewscriptPost (ascii ''key'') (ascii ''x=1'')])"
proof -
  have h: "LUAOBFUSCATOR_API_KEY full_config = Some (ascii ''key'')" "ascii ''key'' \<noteq> []"
    "newscript_post unavailable (ascii ''key'') (ascii ''x=1'')
       = Responds \<lparr>resp_status = 503, resp_text = Inr [], resp_json = Inr JNull\<rparr>"
    "resp_status \<lparr>resp_status = 503, resp_text = Inr [], resp_json = Inr JNull\<rparr> \<noteq> 200"
    by (simp_all add: full_config_def unavailable_def reply_def ascii_def)
  from session_refused_no_transform [OF h] h show ?thesis
    by (simp add: reply_def)
qed

section \<open>Properties of the handler\<close>

lemma obfuscate_try_fst:
  "fst (obfuscate_try cfg env file script requested) =
     (case fst (obfuscate_script cfg env (snd (incoming file script))) of
        Inl e \<Rightarrow> Inl e
      | Inr v \<Rightarrow>
          (case encode_result v of
             Inl e \<Rightarrow> Inl e
           | Inr buf \<Rightarrow>
               new_StreamingResponse buf (ascii ''text/plain'')
                 [content_disposition (out_name requested (fst (incoming file script)))]))"
proof -
  obtain n c where i: "incoming file script = (n, c)"
    by (cases "incoming file script")
  obtain tr1 where w: "send_to_webhook cfg env n c = (Inr (), tr1)"
    using send_to_webhook_returns [of cfg env n c]
    by (cases "send_to_webhook cfg env n c") auto
  obtain r2 tr2 where o: "obfuscate_script cfg env c = (r2, tr2)"
    by (cases "obfuscate_script cfg env c")
  show ?thesis
    by (simp add: obfuscate_try_def i w o Let_def split: sum.splits)
qed

lemma obfuscate_try_snd:
  "snd (obfuscate_try cfg env file script requested) =
     [SessionOpen 30,
      Call_send_to_webhook (fst (incoming file script)) (snd (incoming file script))]
     @ snd (send_to_webhook cfg env (fst (incoming file script)) (snd (incoming file script)))
     @ [Call_obfuscate_script (snd (incoming file script))]
     @ snd (obfuscate_script cfg env (snd (incoming file script)))
     @ [SessionClose]"
proof -
  obtain n c where i: "incoming file script = (n, c)"
    by (cases "incoming file script")
  obtain tr1 where w: "send_to_webhook cfg env n c = (Inr (), tr1)"
    using send_to_webhook_returns [of cfg env n c]
    by (cases "send_to_webhook cfg env n c") auto
  obtain r2 tr2 where o: "obfuscate_script cfg env c = (r2, tr2)"
    by (cases "obfuscate_script cfg env c")
  show ?thesis
    by (simp add: obfuscate_try_def i w o Let_def split: sum.splits)
qed

lemma obfuscate_fst:
  "fst (obfuscate cfg env file script requested) =
     (if file = None \<and> \<not> truthy script then HTMLResponse no_input_page 400
      else (case fst (obfuscate_try cfg env file script requested) of
              Inl e \<Rightarrow> HTMLResponse (error_page e) 500
            | Inr r \<Rightarrow> r))"
  by (simp add: obfuscate_def split: prod.splits sum.splits)

lemma obfuscate_snd:
  "snd (obfuscate cfg env file script requested) =
     (if file = None \<and> \<not> truthy script then []
      else snd (obfuscate_try cfg env file script requested))"
  by (simp add: obfuscate_def split: prod.splits sum.splits)

lemma new_StreamingResponse_status:
  "new_StreamingResponse buf mt hs = Inr r \<Longrightarrow> r = StreamingResponse buf mt hs"
  by (simp add: new_StreamingResponse_def split: if_splits)

lemma obfuscate_200:
  assumes "fst (obfuscate cfg env file script requested) = StreamingResponse body mt hdrs"
  shows "(file \<noteq> None \<or> truthy script) \<and> mt = ascii ''text/plain'' \<and>
         hdrs = [content_disposition (out_name requested (fst (incoming file script)))] \<and>
         (\<exists>v. fst (obfuscate_script cfg env (snd (incoming file script))) = Inr v
               \<and> encode_result v = Inr body)"
  using assms
  by (auto simp add: obfuscate_fst obfuscate_try_fst split: if_splits sum.splits
      dest: new_StreamingResponse_status)

lemma out_name_empty: "out_name (Some []) n = out_name None n"
  by (simp add: out_name_def str_or_def)

lemma obfuscate_script_try_webhook_update:
  "obfuscate_script_try (env\<lparr>webhook_post := w\<rparr>) key s = obfuscate_script_try env key s"
  by (simp add: obfuscate_script_try_def Let_def
      cong: http_outcome.case_cong sum.case_cong if_cong)

lemma obfuscate_script_webhook_update [simp]:
  "obfuscate_script cfg' (env\<lparr>webhook_post := w\<rparr>) s = obfuscate_script cfg' env s"
  by (simp add: obfuscate_script_def obfuscate_script_try_webhook_update
      cong: option.case_cong if_cong)

lemma obfuscate_script_url_update [simp]:
  "obfuscate_script (cfg\<lparr>WEBHOOK_URL := u\<rparr>) env s = obfuscate_script cfg env s"
  by (simp add: obfuscate_script_def split: option.splits)

text \<open>
  Claim C9. A submission with no file whose pasted text is the empty string is answered
  with the fixed 400 page, exactly as when no text was sent at all; and an empty
  requested filename gives the same response and the same requests as no requested
  filename.
\<close>

theorem empty_string_is_absent:
  "obfuscate cfg env None (Some []) requested = (HTMLResponse no_input_page 400, []) \<and>
   obfuscate cfg env None (Some []) requested = obfuscate cfg env None None requested \<and>
   obfuscate cfg env file script (Some []) = obfuscate cfg env file script None"
  by (simp add: obfuscate_def truthy_def obfuscate_try_def out_name_empty Let_def
      split: prod.splits sum.splits)

text \<open>
  Claim C4. With neither a file nor pasted text the handler answers 400 with the fixed
  page and does nothing else. With a file, or with pasted text that is not empty, the
  status is never 400. So the status is 400 exactly when there is no file and the
  pasted text is absent or empty.
\<close>

theorem no_input_is_400:
  "(file = None \<and> script = None \<longrightarrow>
      obfuscate cfg env file script requested = (HTMLResponse no_input_page 400, [])) \<and>
   (file \<noteq> None \<or> truthy script \<longrightarrow>
      status_code (fst (obfuscate cfg env file script requested)) \<noteq> 400) \<and>
   (status_code (fst (obfuscate cfg env file script requested)) = 400
      \<longleftrightarrow> file = None \<and> \<not> truthy script)"
  by (auto simp add: obfuscate_fst obfuscate_snd prod_eq_iff truthy_def obfuscate_try_fst
      split: sum.splits dest: new_StreamingResponse_status)

text \<open>
  Claim C6. \<open>send_to_webhook\<close> never raises, and the response of the handler does not
  depend on the webhook: replacing the behaviour of the webhook endpoint, or the
  configured URL, by any other leaves the response as it is.
\<close>

theorem webhook_never_alters_response:
  "fst (send_to_webhook cfg env name content) = Inr () \<and>
   fst (obfuscate (cfg\<lparr>WEBHOOK_URL := u\<rparr>) (env\<lparr>webhook_post := w\<rparr>) file script requested)
     = fst (obfuscate cfg env file script requested)"
  by (simp add: send_to_webhook_returns obfuscate_fst obfuscate_try_fst)

section \<open>The UTF-8 codec: decoding inverts encoding\<close>

lemma unat_byte_of: "n < 256 \<Longrightarrow> unat (byte_of n) = n"
  by (simp add: byte_of_def unat_of_nat)

lemma cont_byte: "d < 64 \<Longrightarrow> is_cont (byte_of (0x80 + d))"
  by (simp add: is_cont_def unat_byte_of)

lemma cont_byte_unat: "d < 64 \<Longrightarrow> unat (byte_of (0x80 + d)) = 0x80 + d"
  by (simp add: unat_byte_of)

lemma step_1: "c < 0x80 \<Longrightarrow> utf8_step (byte_of c) rest = (c, 0)"
  by (simp add: utf8_step_def unat_byte_of)

lemma step_2:
  assumes "0x80 \<le> c" "c < 0x800"
  shows "utf8_step (byte_of (0xC0 + c div 64)) (byte_of (0x80 + c mod 64) # rest) = (c, 1)"
proof -
  define a where "a = c div 64"
  define d where "d = c mod 64"
  have c: "c = a * 64 + d" and d: "d < 64" by (simp_all add: a_def d_def)
  have a: "2 \<le> a" "a < 32" using assms c d by arith+
  have u: "unat (byte_of (0xC0 + a)) = 0xC0 + a" using a by (simp add: unat_byte_of)
  show ?thesis
    unfolding a_def [symmetric] d_def [symmetric]
    using a d by (simp add: utf8_step_def cp2_def u cont_byte cont_byte_unat c)
qed


lemma step_3_aux:
  assumes a: "a < 16" and b: "b < 64" and d: "d < 64"
    and a0: "a = 0 \<longrightarrow> 32 \<le> b" and a13: "a = 13 \<longrightarrow> b < 32"
  shows "utf8_step (byte_of (0xE0 + a)) (byte_of (0x80 + b) # byte_of (0x80 + d) # rest)
          = (a * 4096 + b * 64 + d, 2)"
proof -
  have u: "unat (byte_of (0xE0 + a)) = 0xE0 + a" using a by (simp add: unat_byte_of)
  have g: "b < 32 \<Longrightarrow> 0 < a" "\<not> b < 32 \<Longrightarrow> a \<noteq> 13"
    using a0 a13 by arith+
  show ?thesis
    using a b d g by (simp add: utf8_step_def cp3_def cp4_def Let_def u cont_byte cont_byte_unat)
qed

lemma step_4_aux:
  assumes a: "a < 5" and b: "b < 64" and e: "e < 64" and d: "d < 64"
    and a0: "a = 0 \<longrightarrow> 16 \<le> b" and a4: "a = 4 \<longrightarrow> b < 16"
  shows "utf8_step (byte_of (0xF0 + a))
           (byte_of (0x80 + b) # byte_of (0x80 + e) # byte_of (0x80 + d) # rest)
          = (a * 262144 + b * 4096 + e * 64 + d, 3)"
proof -
  have u: "unat (byte_of (0xF0 + a)) = 0xF0 + a" using a by (simp add: unat_byte_of)
  have g: "b < 16 \<Longrightarrow> 0 < a" "\<not> b < 16 \<Longrightarrow> a \<noteq> 4"
    using a0 a4 by arith+
  show ?thesis
    using a b e d g by (simp add: utf8_step_def cp3_def cp4_def Let_def u cont_byte cont_byte_unat)
qed

lemma join3: "(c::nat) = x * 64 + d \<Longrightarrow> x = a * 64 + b \<Longrightarrow> c = a * 4096 + b * 64 + d"
  by simp

lemma split3: "(c::nat) = c div 4096 * 4096 + c div 64 mod 64 * 64 + c mod 64"
proof -
  have "c div 64 div 64 = c div 4096"
    by (simp add: div_mult2_eq [symmetric])
  then have "c div 64 = c div 4096 * 64 + c div 64 mod 64"
    using div_mult_mod_eq [of "c div 64" 64] by simp
  moreover have "c = c div 64 * 64 + c mod 64"
    by simp
  ultimately show ?thesis by (rule join3 [rotated])
qed

lemma split4:
  "(c::nat) = c div 262144 * 262144 + c div 4096 mod 64 * 4096 + c div 64 mod 64 * 64 + c mod 64"
proof -
  have "c div 4096 div 64 = c div 262144"
    by (simp add: div_mult2_eq [symmetric])
  then have "c div 4096 = c div 262144 * 64 + c div 4096 mod 64"
    using div_mult_mod_eq [of "c div 4096" 64] by simp
  then have "c div 4096 * 4096 = c div 262144 * 262144 + c div 4096 mod 64 * 4096"
    by simp
  then show ?thesis using split3 [of c] by simp
qed

lemma step_3:
  assumes "0x800 \<le> c" "c < 0x10000" "\<not> is_surrogate c"
  shows "utf8_step (byte_of (0xE0 + c div 4096))
           (byte_of (0x80 + c div 64 mod 64) # byte_of (0x80 + c mod 64) # rest) = (c, 2)"
proof -
  define a where "a = c div 4096"
  define b where "b = c div 64 mod 64"
  define d where "d = c mod 64"
  have b: "b < 64" and d: "d < 64" by (simp_all add: b_def d_def)
  have c: "c = a * 4096 + b * 64 + d"
    unfolding a_def b_def d_def by (rule split3)
  have a: "a < 16" using assms(2) c by arith
  have a0: "a = 0 \<longrightarrow> 32 \<le> b" using assms(1) c d by arith
  have a13: "a = 13 \<longrightarrow> b < 32"
    using assms(3) c b d unfolding is_surrogate_def by arith
  have "utf8_step (byte_of (0xE0 + a)) (byte_of (0x80 + b) # byte_of (0x80 + d) # rest)
          = (a * 4096 + b * 64 + d, 2)"
    using a b d a0 a13 by (rule step_3_aux)
  then show ?thesis
    unfolding a_def b_def d_def by (simp only: split3 [symmetric])
qed

lemma step_4:
  assumes "0x10000 \<le> c" "c \<le> 0x10FFFF"
  shows "utf8_step (byte_of (0xF0 + c div 262144))
           (byte_of (0x80 + c div 4096 mod 64) # byte_of (0x80 + c div 64 mod 64)
              # byte_of (0x80 + c mod 64) # rest) = (c, 3)"
proof -
  define a where "a = c div 262144"
  define b where "b = c div 4096 mod 64"
  define e where "e = c div 64 mod 64"
  define d where "d = c mod 64"
  have b: "b < 64" and e: "e < 64" and d: "d < 64" by (simp_all add: b_def d_def e_def)
  have c: "c = a * 262144 + b * 4096 + e * 64 + d"
    unfolding a_def b_def d_def e_def by (rule split4)
  have a: "a < 5" using assms(2) c by arith
  have a0: "a = 0 \<longrightarrow> 16 \<le> b" using assms(1) c d e by arith
  have a4: "a = 4 \<longrightarrow> b < 16" using assms(2) c by arith
  have "utf8_step (byte_of (0xF0 + a))
           (byte_of (0x80 + b) # byte_of (0x80 + e) # byte_of (0x80 + d) # rest)
          = (a * 262144 + b * 4096 + e * 64 + d, 3)"
    using a b e d a0 a4 by (rule step_4_aux)
  then show ?thesis
    unfolding a_def b_def d_def e_def by (simp only: split4 [symmetric])
qed


lemma decode_encode_cp:
  assumes "is_scalar c"
  shows "utf8_decode_replace (utf8_encode_cp c @ rest) = c # utf8_decode_replace rest"
proof -
  consider "c < 0x80" | "0x80 \<le> c" "c < 0x800" | "0x800 \<le> c" "c < 0x10000"
    | "0x10000 \<le> c" "c \<le> 0x10FFFF"
    using assms by (auto simp add: is_scalar_def) arith
  then show ?thesis
  proof cases
    case 1
    then show ?thesis by (simp add: utf8_encode_cp_def step_1)
  next
    case 2
    then show ?thesis by (simp add: utf8_encode_cp_def step_2)
  next
    case 3
    moreover have "\<not> is_surrogate c" using assms by (simp add: is_scalar_def)
    ultimately show ?thesis by (simp add: utf8_encode_cp_def step_3)
  next
    case 4
    then show ?thesis by (simp add: utf8_encode_cp_def step_4)
  qed
qed

lemma decode_encode_all:
  "list_all is_scalar s \<Longrightarrow> utf8_decode_replace (concat (map utf8_encode_cp s)) = s"
  by (induction s) (simp_all add: decode_encode_cp)

lemma utf8_roundtrip: "utf8_encode t = Inr bs \<Longrightarrow> utf8_decode_replace bs = t"
  by (auto simp add: utf8_encode_def decode_encode_all split: if_splits)

section \<open>The UTF-8 codec: decoding yields proper text\<close>

lemma scalar2: "x < 32 \<Longrightarrow> y < 64 \<Longrightarrow> is_scalar (x * 64 + y)"
  unfolding is_scalar_def is_surrogate_def by linarith

lemma scalar3:
  assumes "x < 16" "y < 64" "z < 64" "x = 13 \<longrightarrow> y < 32"
  shows "is_scalar (x * 4096 + y * 64 + z)"
proof -
  consider "x \<le> 12" | "x = 13" "y < 32" | "14 \<le> x"
    using assms(4) by linarith
  then show ?thesis
    unfolding is_scalar_def is_surrogate_def using assms(1-3) by cases linarith+
qed

lemma scalar4:
  assumes "x < 5" "y < 64" "z < 64" "w < 64" "x = 4 \<longrightarrow> y < 16" "x = 0 \<longrightarrow> 16 \<le> y"
  shows "is_scalar (x * 262144 + y * 4096 + z * 64 + w)"
proof -
  consider "x = 0" "16 \<le> y" | "1 \<le> x" "x \<le> 3" | "x = 4" "y < 16"
    using assms(1,5,6) by linarith
  then show ?thesis
    unfolding is_scalar_def is_surrogate_def using assms(2-4) by cases linarith+
qed


lemma scalar_fffd: "is_scalar 0xFFFD"
  by (simp add: is_scalar_def is_surrogate_def)

lemma scalar_ascii: "c < 0x80 \<Longrightarrow> is_scalar c"
  by (simp add: is_scalar_def is_surrogate_def)

lemma step_scalar2:
  assumes "0xC0 \<le> (c::nat)" "c < 0xE0" "0x80 \<le> (u2::nat)" "u2 < 0xC0"
  shows "is_scalar (cp2 c u2)"
  unfolding cp2_def
proof (rule scalar2)
  show "c - 0xC0 < 32" using assms by linarith
  show "u2 - 0x80 < 64" using assms by linarith
qed

lemma step_scalar3:
  assumes "0xE0 \<le> (c::nat)" "c < 0xF0" "0x80 \<le> (u2::nat)" "u2 < 0xC0"
    "0x80 \<le> (u3::nat)" "u3 < 0xC0" "c = 0xED \<longrightarrow> u2 < 0xA0"
  shows "is_scalar (cp3 c u2 u3)"
  unfolding cp3_def
proof (rule scalar3)
  show "c - 0xE0 < 16" using assms by linarith
  show "u2 - 0x80 < 64" using assms by linarith
  show "u3 - 0x80 < 64" using assms by linarith
  show "c - 0xE0 = 13 \<longrightarrow> u2 - 0x80 < 32" using assms by linarith
qed

lemma step_scalar4:
  assumes "0xF0 \<le> (c::nat)" "c < 0xF5" "0x80 \<le> (u2::nat)" "u2 < 0xC0"
    "0x80 \<le> (u3::nat)" "u3 < 0xC0" "0x80 \<le> (u4::nat)" "u4 < 0xC0"
    "c = 0xF4 \<longrightarrow> u2 < 0x90" "c = 0xF0 \<longrightarrow> 0x90 \<le> u2"
  shows "is_scalar (cp4 c u2 u3 u4)"
  unfolding cp4_def
proof (rule scalar4)
  show "c - 0xF0 < 5" using assms by linarith
  show "u2 - 0x80 < 64" using assms by linarith
  show "u3 - 0x80 < 64" using assms by linarith
  show "u4 - 0x80 < 64" using assms by linarith
  show "c - 0xF0 = 4 \<longrightarrow> u2 - 0x80 < 16" using assms by linarith
  show "c - 0xF0 = 0 \<longrightarrow> 16 \<le> u2 - 0x80" using assms by linarith
qed

lemma utf8_step_scalar: "is_scalar (fst (utf8_step b bs))"
  unfolding utf8_step_def Let_def
  by (auto simp add: is_cont_def scalar_fffd scalar_ascii not_less
      intro!: step_scalar2 step_scalar3 step_scalar4 split: list.splits)

lemma utf8_decode_replace_scalar: "list_all is_scalar (utf8_decode_replace bs)"
proof (induction bs rule: utf8_decode_replace.induct)
  case 1
  show ?case by simp
next
  case (2 b bs)
  obtain cp k where s: "utf8_step b bs = (cp, k)" by (cases "utf8_step b bs")
  then have "is_scalar cp" using utf8_step_scalar [of b bs] by simp
  then show ?case using 2 [of cp k] s by simp
qed

lemma utf8_encode_decoded:
  "\<exists>bs'. utf8_encode (utf8_decode_replace bs) = Inr bs'"
  by (simp add: utf8_encode_def utf8_decode_replace_scalar)

section \<open>The output filename\<close>

lemma py_lower_append: "py_lower (a @ b) = py_lower a @ py_lower b"
  by (simp add: py_lower_def)

lemma py_lower_suffixes:
  "py_lower (ascii ''.lua'') = ascii ''.lua''" "py_lower (ascii ''.txt'') = ascii ''.txt''"
  "py_lower (ascii ''.LUA'') = ascii ''.lua''" "py_lower (ascii ''.TXT'') = ascii ''.txt''"
  by (simp_all add: py_lower_def lower_cp_def ascii_def)

lemma suffix_last: "suffix x (y @ x)"
  by (rule suffixI) simp

lemma suffix_last2: "suffix x (a @ y @ x)"
  by (rule suffixI [of _ "a @ y"]) simp

lemma out_name_spec:
  "requested \<noteq> Some [] \<Longrightarrow> out_name requested src = spec_out_name requested src"
  by (cases requested)
     (simp_all add: out_name_def spec_out_name_def py_endswith_def str_or_def Let_def)

lemma out_name_kept:
  assumes "py_lower suf = ascii ''.lua'' \<or> py_lower suf = ascii ''.txt''" "suf \<noteq> []"
  shows "out_name (Some (stem @ suf)) src = stem @ suf"
    and "out_name None (stem @ suf) = ascii ''obfuscated_'' @ stem @ suf"
  using assms
  by (auto simp add: out_name_def py_endswith_def str_or_def Let_def py_lower_append
      suffix_last suffix_last2)

lemma out_name_lowered:
  "py_endswith (py_lower (out_name requested src)) [ascii ''.lua'', ascii ''.txt'']"
  by (simp add: out_name_def Let_def py_lower_append py_lower_suffixes)
     (simp add: py_endswith_def suffix_last)

text \<open>
  Claim C3. For a requested name that is absent or not empty, the name computed by the
  handler is the one the specification describes: the requested name, or
  \<open>"obfuscated_"\<close> before the source name, with \<open>".lua"\<close> appended once unless the
  lowercased name ends in \<open>".lua"\<close> or \<open>".txt"\<close>. A requested name that ends in
  \<open>".lua"\<close>, \<open>".txt"\<close>, \<open>".LUA"\<close> or \<open>".TXT"\<close> is kept as it is, the lowercased
  result always ends in one of the two suffixes, and every 200 response carries the
  computed name in its Content-Disposition header.
\<close>

theorem output_filename:
  "(requested \<noteq> Some [] \<longrightarrow> out_name requested src = spec_out_name requested src) \<and>
   (suf \<in> {ascii ''.lua'', ascii ''.txt'', ascii ''.LUA'', ascii ''.TXT''} \<longrightarrow>
      out_name (Some (stem @ suf)) src = stem @ suf) \<and>
   py_endswith (py_lower (out_name requested src)) [ascii ''.lua'', ascii ''.txt''] \<and>
   (fst (obfuscate cfg env file script requested) = StreamingResponse body mt hdrs \<longrightarrow>
      hdrs = [content_disposition (out_name requested (fst (incoming file script)))])"
proof -
  have "out_name (Some (stem @ suf)) src = stem @ suf"
    if "suf \<in> {ascii ''.lua'', ascii ''.txt'', ascii ''.LUA'', ascii ''.TXT''}"
  proof (rule out_name_kept(1))
    show "py_lower suf = ascii ''.lua'' \<or> py_lower suf = ascii ''.txt''"
      using that py_lower_suffixes by auto
    show "suf \<noteq> []" using that by (auto simp add: ascii_def)
  qed
  then show ?thesis
    using out_name_spec [of requested src] out_name_lowered [of requested src]
      obfuscate_200 [where body = body and mt = mt and hdrs = hdrs]
    by blast
qed

theorem output_filename_witness:
  "Some (ascii ''out'') \<noteq> Some [] \<and>
   out_name (Some (ascii ''out'')) (ascii ''pasted_script.lua'') = ascii ''out.lua'' \<and>
   out_name (Some (ascii ''Script.TXT'')) (ascii ''pasted_script.lua'') = ascii ''Script.TXT''"
  using output_filename [of "Some (ascii ''out'')" "ascii ''pasted_script.lua''"
      "ascii ''.TXT''" "ascii ''Script''"]
  by (simp add: spec_out_name_def py_lower_def lower_cp_def ascii_def suffix_to_prefix)

section \<open>Order of the calls and resolution of the content\<close>





lemma obfuscate_take2:
  assumes "file \<noteq> None \<or> truthy script"
  shows "take 2 (snd (obfuscate cfg env file script requested)) =
           [SessionOpen 30,
            Call_send_to_webhook (fst (incoming file script)) (snd (incoming file script))]"
  using assms by (auto simp add: obfuscate_snd obfuscate_try_snd)

lemma obfuscate_file_ignores_script:
  "obfuscate cfg env (Some f) script requested = obfuscate cfg env (Some f) None requested"
  by (simp add: obfuscate_def obfuscate_try_def incoming_def)

text \<open>
  Claim C8. An uploaded file has precedence. With a file, the handler behaves as if
  no text had been pasted; the two calls receive the name of the file (its own name,
  when it has one) and its octets decoded as UTF-8, where decoding never fails and
  yields proper text: what cannot be decoded is replaced. Without a file, pasted text
  that is not empty is used as it is, under the name \<open>pasted_script.lua\<close>.
\<close>

theorem file_has_precedence:
  "obfuscate cfg env (Some f) script requested = obfuscate cfg env (Some f) None requested \<and>
   take 2 (snd (obfuscate cfg env (Some f) script requested)) =
     [SessionOpen 30,
      Call_send_to_webhook (str_or (filename f) (ascii ''uploaded_script.lua''))
        (utf8_decode_replace (contents f))] \<and>
   (filename f = Some n \<and> n \<noteq> [] \<longrightarrow> fst (incoming (Some f) script) = n) \<and>
   list_all is_scalar (utf8_decode_replace (contents f)) \<and>
   (s \<noteq> [] \<longrightarrow>
      take 2 (snd (obfuscate cfg env None (Some s) requested)) =
        [SessionOpen 30, Call_send_to_webhook (ascii ''pasted_script.lua'') s])"
  using obfuscate_file_ignores_script [of cfg env f script requested]
    obfuscate_take2 [of "Some f" script cfg env requested]
    obfuscate_take2 [of None "Some s" cfg env requested]
    utf8_decode_replace_scalar [of "contents f"]
  by (simp add: incoming_def str_or_def truthy_def)

theorem file_has_precedence_witness:
  "take 2 (snd (obfuscate full_config working (Some broken_lua) (Some (ascii ''x=1'')) None)) =
     [SessionOpen 30, Call_send_to_webhook (ascii ''a.lua'') [0xFFFD]] \<and>
   ascii ''x=1'' \<noteq> [] \<and>
   take 2 (snd (obfuscate full_config working None (Some (ascii ''x=1'')) None)) =
     [SessionOpen 30, Call_send_to_webhook (ascii ''pasted_script.lua'') (ascii ''x=1'')]"
proof -
  note w = file_has_precedence [of full_config working broken_lua "Some (ascii ''x=1'')" None
      "ascii ''a.lua''" "ascii ''x=1''"]
  have a: "take 2 (snd (obfuscate full_config working (Some broken_lua)
                          (Some (ascii ''x=1'')) None)) =
             [SessionOpen 30,
              Call_send_to_webhook (str_or (filename broken_lua) (ascii ''uploaded_script.lua''))
                (utf8_decode_replace (contents broken_lua))]"
    using w by blast
  have b: "ascii ''x=1'' \<noteq> [] \<longrightarrow>
             take 2 (snd (obfuscate full_config working None (Some (ascii ''x=1'')) None)) =
               [SessionOpen 30,
                Call_send_to_webhook (ascii ''pasted_script.lua'') (ascii ''x=1'')]"
    using w by blast
  have c: "str_or (filename broken_lua) (ascii ''uploaded_script.lua'') = ascii ''a.lua''"
    "utf8_decode_replace (contents broken_lua) = [0xFFFD]" "ascii ''x=1'' \<noteq> []"
    by (simp_all add: broken_lua_def str_or_def utf8_step_def ascii_def)
  from a b c show ?thesis by simp
qed

lemma default_names:
  "out_name None (ascii ''uploaded_script.lua'') = ascii ''obfuscated_uploaded_script.lua''"
  "out_name None (ascii ''pasted_script.lua'') = ascii ''obfuscated_pasted_script.lua''"
  using out_name_kept(2) [of "ascii ''.lua''" "ascii ''uploaded_script''"]
    out_name_kept(2) [of "ascii ''.lua''" "ascii ''pasted_script''"]
  by (simp_all add: py_lower_suffixes) (simp_all add: ascii_def)

lemma latin1_default_header:
  "new_StreamingResponse body mt [content_disposition (ascii ''obfuscated_uploaded_script.lua'')]
     = Inr (StreamingResponse body mt
              [content_disposition (ascii ''obfuscated_uploaded_script.lua'')])"
  by (simp add: new_StreamingResponse_def content_disposition_def ascii_def)

text \<open>
  Claim C10. For an uploaded file without a name and no requested output name, the
  source name is \<open>uploaded_script.lua\<close>, every 200 response names the attachment
  \<open>obfuscated_uploaded_script.lua\<close>, and without a configured key the response is
  such a 200 response.
\<close>

theorem nameless_upload:
  assumes "\<not> truthy (filename f)" "\<not> truthy requested"
  shows "take 2 (snd (obfuscate cfg env (Some f) script requested)) =
           [SessionOpen 30,
            Call_send_to_webhook (ascii ''uploaded_script.lua'')
              (utf8_decode_replace (contents f))] \<and>
         (\<forall>body mt hdrs.
            fst (obfuscate cfg env (Some f) script requested) = StreamingResponse body mt hdrs
              \<longrightarrow> hdrs = [content_disposition (ascii ''obfuscated_uploaded_script.lua'')]) \<and>
         (\<not> truthy (LUAOBFUSCATOR_API_KEY cfg) \<longrightarrow>
            (\<exists>body. fst (obfuscate cfg env (Some f) script requested) =
               StreamingResponse body (ascii ''text/plain'')
                 [content_disposition (ascii ''obfuscated_uploaded_script.lua'')]))"
proof -
  have n: "fst (incoming (Some f) script) = ascii ''uploaded_script.lua''"
    using assms(1) by (simp add: incoming_def str_or_def truthy_def split: option.splits)
  have c: "snd (incoming (Some f) script) = utf8_decode_replace (contents f)"
    by (simp add: incoming_def)
  have o: "out_name requested (ascii ''uploaded_script.lua'')
             = ascii ''obfuscated_uploaded_script.lua''"
  proof (cases requested)
    case None
    then show ?thesis by (simp add: default_names)
  next
    case (Some r)
    then have "r = []" using assms(2) by (simp add: truthy_def)
    then show ?thesis using Some by (simp add: out_name_empty default_names)
  qed
  have 1: "take 2 (snd (obfuscate cfg env (Some f) script requested)) =
             [SessionOpen 30,
              Call_send_to_webhook (ascii ''uploaded_script.lua'')
                (utf8_decode_replace (contents f))]"
    using obfuscate_take2 [of "Some f" script cfg env requested] by (simp add: n c)
  have 2: "hdrs = [content_disposition (ascii ''obfuscated_uploaded_script.lua'')]"
    if "fst (obfuscate cfg env (Some f) script requested) = StreamingResponse body mt hdrs"
    for body mt hdrs
    using obfuscate_200 [OF that] by (simp add: n o)
  have 3: "\<exists>body. fst (obfuscate cfg env (Some f) script requested) =
               StreamingResponse body (ascii ''text/plain'')
                 [content_disposition (ascii ''obfuscated_uploaded_script.lua'')]"
    if "\<not> truthy (LUAOBFUSCATOR_API_KEY cfg)"
  proof -
    obtain bs' where e: "utf8_encode (utf8_decode_replace (contents f)) = Inr bs'"
      using utf8_encode_decoded by blast
    show ?thesis
      by (simp add: obfuscate_fst obfuscate_try_fst n c o e encode_result_def
          obfuscate_script_unconfigured [OF that] latin1_default_header)
  qed
  from 1 2 3 show ?thesis by blast
qed

theorem nameless_upload_witness:
  "\<not> truthy (filename nameless) \<and> \<not> truthy None \<and>
   fst (obfuscate no_config offline (Some nameless) None None) =
     StreamingResponse (map byte_of (ascii ''x=1'')) (ascii ''text/plain'')
       [content_disposition (ascii ''obfuscated_uploaded_script.lua'')]"
proof -
  have h: "\<not> truthy (filename nameless)" "\<not> truthy None"
    "\<not> truthy (LUAOBFUSCATOR_API_KEY no_config)"
    by (simp_all add: truthy_def nameless_def no_config_def)
  have "\<exists>body. fst (obfuscate no_config offline (Some nameless) None None) =
               StreamingResponse body (ascii ''text/plain'')
                 [content_disposition (ascii ''obfuscated_uploaded_script.lua'')]"
    using nameless_upload [OF h(1,2), of no_config offline None] h(3) by blast
  then obtain body where b: "fst (obfuscate no_config offline (Some nameless) None None) =
               StreamingResponse body (ascii ''text/plain'')
                 [content_disposition (ascii ''obfuscated_uploaded_script.lua'')]" ..
  have "utf8_encode (ascii ''x=1'') = Inr (contents nameless)"
    by (simp add: nameless_def utf8_encode_def utf8_encode_cp_def is_scalar_def
        is_surrogate_def ascii_def)
  then have "utf8_decode_replace (contents nameless) = ascii ''x=1''"
    by (rule utf8_roundtrip)
  then have "body = map byte_of (ascii ''x=1'')"
    using obfuscate_200 [OF b] h(3)
    by (simp add: incoming_def obfuscate_script_unconfigured encode_result_def
        utf8_encode_def utf8_encode_cp_def is_scalar_def is_surrogate_def ascii_def)
  with b h show ?thesis by simp
qed

section \<open>The UTF-8 codec: what is decoded without replacement was well-formed\<close>

lemma byte_of_unat: "byte_of (unat b) = b"
  by (simp add: byte_of_def)

lemma digits2:
  assumes "y < 64"
  shows "(x * 64 + y) div 64 = (x::nat)" "(x * 64 + y) mod 64 = y"
  using assms by simp_all

lemma digits3:
  assumes "y < 64" "z < 64"
  shows "(x * 4096 + y * 64 + z) div 4096 = (x::nat)"
    "(x * 4096 + y * 64 + z) div 64 mod 64 = y"
    "(x * 4096 + y * 64 + z) mod 64 = z"
proof -
  have v: "x * 4096 + y * 64 + z = (x * 64 + y) * 64 + z" by simp
  have d: "(x * 4096 + y * 64 + z) div 64 = x * 64 + y"
    by (subst v) (rule digits2(1) [OF assms(2)])
  show "(x * 4096 + y * 64 + z) mod 64 = z"
    by (subst v) (rule digits2(2) [OF assms(2)])
  show "(x * 4096 + y * 64 + z) div 64 mod 64 = y"
    by (subst d) (rule digits2(2) [OF assms(1)])
  have "(x * 4096 + y * 64 + z) div 4096 = (x * 4096 + y * 64 + z) div 64 div 64"
    by (simp add: div_mult2_eq [symmetric])
  also have "\<dots> = (x * 64 + y) div 64"
    by (subst d) (rule refl)
  also have "\<dots> = x"
    by (rule digits2(1) [OF assms(1)])
  finally show "(x * 4096 + y * 64 + z) div 4096 = x" .
qed

lemma digits4:
  assumes "y < 64" "z < 64" "w < 64"
  shows "(x * 262144 + y * 4096 + z * 64 + w) div 262144 = (x::nat)"
    "(x * 262144 + y * 4096 + z * 64 + w) div 4096 mod 64 = y"
    "(x * 262144 + y * 4096 + z * 64 + w) div 64 mod 64 = z"
    "(x * 262144 + y * 4096 + z * 64 + w) mod 64 = w"
proof -
  let ?v = "x * 262144 + y * 4096 + z * 64 + w"
  have v: "?v = (x * 4096 + y * 64 + z) * 64 + w" by simp
  have d: "?v div 64 = x * 4096 + y * 64 + z"
    by (subst v) (rule digits2(1) [OF assms(3)])
  show "?v mod 64 = w"
    by (subst v) (rule digits2(2) [OF assms(3)])
  show "?v div 64 mod 64 = z"
    by (subst d) (rule digits3(3) [OF assms(1,2)])
  have "?v div 4096 = ?v div 64 div 64"
    by (simp add: div_mult2_eq [symmetric])
  also have "\<dots> = (x * 4096 + y * 64 + z) div 64"
    by (subst d) (rule refl)
  finally have e: "?v div 4096 = (x * 4096 + y * 64 + z) div 64" .
  show "?v div 4096 mod 64 = y"
    by (subst e) (rule digits3(2) [OF assms(1,2)])
  have "?v div 262144 = ?v div 4096 div 64"
    by (simp add: div_mult2_eq [symmetric])
  also have "\<dots> = (x * 4096 + y * 64 + z) div 64 div 64"
    by (subst e) (rule refl)
  also have "\<dots> = (x * 4096 + y * 64 + z) div 4096"
    by (simp add: div_mult2_eq [symmetric])
  also have "\<dots> = x"
    by (rule digits3(1) [OF assms(1,2)])
  finally show "?v div 262144 = x" .
qed

lemma enc2:
  assumes "0xC2 \<le> c" "c < 0xE0" "0x80 \<le> u" "u < 0xC0"
  shows "utf8_encode_cp (cp2 c u) = [byte_of c, byte_of u]"
proof -
  define x y where "x = c - 0xC0" and "y = u - 0x80"
  have c: "c = 0xC0 + x" and u: "u = 0x80 + y" and x: "2 \<le> x" "x < 32" and y: "y < 64"
    using assms by (simp_all add: x_def y_def)
  have v: "cp2 c u = x * 64 + y"
    by (simp add: cp2_def x_def y_def)
  have r: "\<not> x * 64 + y < 0x80" "x * 64 + y < 0x800"
    using x y by linarith+
  show ?thesis
    unfolding v by (simp only: utf8_encode_cp_def r if_True if_False digits2 [OF y] c u)
qed

lemma enc3:
  assumes "0xE0 \<le> c" "c < 0xF0" "0x80 \<le> u2" "u2 < 0xC0" "0x80 \<le> u3" "u3 < 0xC0"
    "c = 0xE0 \<longrightarrow> 0xA0 \<le> u2"
  shows "utf8_encode_cp (cp3 c u2 u3) = [byte_of c, byte_of u2, byte_of u3]"
proof -
  define x y z where "x = c - 0xE0" and "y = u2 - 0x80" and "z = u3 - 0x80"
  have c: "c = 0xE0 + x" and u2: "u2 = 0x80 + y" and u3: "u3 = 0x80 + z"
    and x: "x < 16" and y: "y < 64" and z: "z < 64"
    using assms by (simp_all add: x_def y_def z_def)
  have o: "x = 0 \<longrightarrow> 32 \<le> y"
    using assms unfolding x_def y_def by linarith
  have v: "cp3 c u2 u3 = x * 4096 + y * 64 + z"
    by (simp add: cp3_def x_def y_def z_def)
  have r: "\<not> x * 4096 + y * 64 + z < 0x80" "\<not> x * 4096 + y * 64 + z < 0x800"
    "x * 4096 + y * 64 + z < 0x10000"
    using x y z o by linarith+
  show ?thesis
    unfolding v by (simp only: utf8_encode_cp_def r if_True if_False digits3 [OF y z] c u2 u3)
qed

lemma enc4:
  assumes "0xF0 \<le> c" "c < 0xF5" "0x80 \<le> u2" "u2 < 0xC0" "0x80 \<le> u3" "u3 < 0xC0"
    "0x80 \<le> u4" "u4 < 0xC0" "c = 0xF0 \<longrightarrow> 0x90 \<le> u2"
  shows "utf8_encode_cp (cp4 c u2 u3 u4) = [byte_of c, byte_of u2, byte_of u3, byte_of u4]"
proof -
  define x y z w where "x = c - 0xF0" and "y = u2 - 0x80" and "z = u3 - 0x80"
    and "w = u4 - 0x80"
  have c: "c = 0xF0 + x" and u2: "u2 = 0x80 + y" and u3: "u3 = 0x80 + z"
    and u4: "u4 = 0x80 + w"
    and x: "x < 5" and y: "y < 64" and z: "z < 64" and w: "w < 64"
    using assms by (simp_all add: x_def y_def z_def w_def)
  have o: "x = 0 \<longrightarrow> 16 \<le> y"
    using assms unfolding x_def y_def by linarith
  have v: "cp4 c u2 u3 u4 = x * 262144 + y * 4096 + z * 64 + w"
    by (simp add: cp4_def x_def y_def z_def w_def)
  have r: "\<not> x * 262144 + y * 4096 + z * 64 + w < 0x80"
    "\<not> x * 262144 + y * 4096 + z * 64 + w < 0x800"
    "\<not> x * 262144 + y * 4096 + z * 64 + w < 0x10000"
    using x y z w o by linarith+
  show ?thesis
    unfolding v
    by (simp only: utf8_encode_cp_def r if_True if_False digits4 [OF y z w] c u2 u3 u4)
qed

lemma utf8_step_inverse:
  assumes "utf8_step b bs = (cp, k)" "cp \<noteq> 0xFFFD"
  shows "utf8_encode_cp cp = b # take k bs \<and> k \<le> length bs"
proof -
  have e1: "utf8_encode_cp (unat b) = [b]" if "unat b < 0x80"
    using that by (simp add: utf8_encode_cp_def byte_of_unat)
  have e2: "utf8_encode_cp (cp2 (unat b) (unat b2)) = [b, b2]"
    if "0xC2 \<le> unat b" "unat b < 0xE0" "is_cont b2" for b2
    using that enc2 [of "unat b" "unat b2"] by (simp add: is_cont_def byte_of_unat)
  have e3: "utf8_encode_cp (cp3 (unat b) (unat b2) (unat b3)) = [b, b2, b3]"
    if "0xE0 \<le> unat b" "unat b < 0xF0" "is_cont b2" "is_cont b3"
      "unat b = 0xE0 \<longrightarrow> 0xA0 \<le> unat b2" for b2 b3
    using that enc3 [of "unat b" "unat b2" "unat b3"] by (simp add: is_cont_def byte_of_unat)
  have e4: "utf8_encode_cp (cp4 (unat b) (unat b2) (unat b3) (unat b4)) = [b, b2, b3, b4]"
    if "0xF0 \<le> unat b" "unat b < 0xF5" "is_cont b2" "is_cont b3" "is_cont b4"
      "unat b = 0xF0 \<longrightarrow> 0x90 \<le> unat b2" for b2 b3 b4
    using that enc4 [of "unat b" "unat b2" "unat b3" "unat b4"]
    by (simp add: is_cont_def byte_of_unat)
  show ?thesis
    using assms unfolding utf8_step_def Let_def
    by (auto simp add: e1 e2 e3 e4 not_less split: list.splits if_splits)
qed

lemma decode_without_replacement:
  "0xFFFD \<notin> set (utf8_decode_replace bs)
     \<Longrightarrow> concat (map utf8_encode_cp (utf8_decode_replace bs)) = bs"
proof (induction bs rule: utf8_decode_replace.induct)
  case 1
  show ?case by simp
next
  case (2 b bs)
  obtain cp k where s: "utf8_step b bs = (cp, k)"
    by (cases "utf8_step b bs")
  have d: "utf8_decode_replace (b # bs) = cp # utf8_decode_replace (drop k bs)"
    by (simp add: s)
  have n: "cp \<noteq> 0xFFFD" and r: "0xFFFD \<notin> set (utf8_decode_replace (drop k bs))"
    using "2.prems" unfolding d by auto
  have "concat (map utf8_encode_cp (utf8_decode_replace (drop k bs))) = drop k bs"
    using "2.IH" [of cp k] s r by simp
  moreover have "utf8_encode_cp cp = b # take k bs"
    using utf8_step_inverse [OF s n] by simp
  ultimately show ?case
    unfolding d by simp
qed

lemma ill_formed_replaced:
  assumes "\<not> (\<exists>t. utf8_encode t = Inr bs)"
  shows "0xFFFD \<in> set (utf8_decode_replace bs)"
proof (rule ccontr)
  assume "0xFFFD \<notin> set (utf8_decode_replace bs)"
  then have "utf8_encode (utf8_decode_replace bs) = Inr bs"
    using decode_without_replacement [of bs] utf8_decode_replace_scalar [of bs]
    by (simp add: utf8_encode_def)
  with assms show False by blast
qed

lemma encode_cp_replacement: "utf8_encode_cp 0xFFFD = [0xEF, 0xBF, 0xBD]"
  by (simp add: utf8_encode_cp_def byte_of_def)

lemma encoded_replacement:
  assumes "0xFFFD \<in> set s"
  shows "\<exists>pre post. concat (map utf8_encode_cp s) = pre @ [0xEF, 0xBF, 0xBD] @ post"
proof -
  obtain ys zs where "s = ys @ 0xFFFD # zs"
    using assms by (auto simp add: in_set_conv_decomp)
  then have "concat (map utf8_encode_cp s) =
               concat (map utf8_encode_cp ys) @ [0xEF, 0xBF, 0xBD]
               @ concat (map utf8_encode_cp zs)"
    by (simp add: encode_cp_replacement)
  then show ?thesis by blast
qed

lemma decode_encode_append:
  "list_all is_scalar s \<Longrightarrow>
     utf8_decode_replace (concat (map utf8_encode_cp s) @ rest) = s @ utf8_decode_replace rest"
  by (induction s) (simp_all add: decode_encode_cp)

section \<open>The UTF-8 codec: a character cut off at the end of the input\<close>

lemma shape2:
  assumes "0x80 \<le> c" "c < 0x800"
  obtains a d where "utf8_encode_cp c = [byte_of (0xC0 + a), byte_of (0x80 + d)]"
    "2 \<le> a" "a < 32" "d < 64"
proof -
  define a d where "a = c div 64" and "d = c mod 64"
  have c: "c = a * 64 + d" and d: "d < 64" by (simp_all add: a_def d_def)
  have a: "2 \<le> a" "a < 32" using assms c d by linarith+
  have "utf8_encode_cp c = [byte_of (0xC0 + a), byte_of (0x80 + d)]"
    using assms by (simp add: utf8_encode_cp_def a_def d_def)
  then show ?thesis using a d that by blast
qed

lemma shape3:
  assumes "0x800 \<le> c" "c < 0x10000" "\<not> is_surrogate c"
  obtains a b d where
    "utf8_encode_cp c = [byte_of (0xE0 + a), byte_of (0x80 + b), byte_of (0x80 + d)]"
    "a < 16" "b < 64" "d < 64" "a = 0 \<longrightarrow> 32 \<le> b" "a = 13 \<longrightarrow> b < 32"
proof -
  define a b d where "a = c div 4096" and "b = c div 64 mod 64" and "d = c mod 64"
  have b: "b < 64" and d: "d < 64" by (simp_all add: b_def d_def)
  have c: "c = a * 4096 + b * 64 + d"
    unfolding a_def b_def d_def by (rule split3)
  have a: "a < 16" using assms(2) c by linarith
  have a0: "a = 0 \<longrightarrow> 32 \<le> b" using assms(1) c d by linarith
  have a13: "a = 13 \<longrightarrow> b < 32"
    using assms(3) c b d unfolding is_surrogate_def by linarith
  have "utf8_encode_cp c = [byte_of (0xE0 + a), byte_of (0x80 + b), byte_of (0x80 + d)]"
    using assms by (simp add: utf8_encode_cp_def a_def b_def d_def)
  then show ?thesis using a b d a0 a13 that by blast
qed

lemma shape4:
  assumes "0x10000 \<le> c" "c \<le> 0x10FFFF"
  obtains a b e d where
    "utf8_encode_cp c =
       [byte_of (0xF0 + a), byte_of (0x80 + b), byte_of (0x80 + e), byte_of (0x80 + d)]"
    "a < 5" "b < 64" "e < 64" "d < 64" "a = 0 \<longrightarrow> 16 \<le> b" "a = 4 \<longrightarrow> b < 16"
proof -
  define a b e d where "a = c div 262144" and "b = c div 4096 mod 64"
    and "e = c div 64 mod 64" and "d = c mod 64"
  have b: "b < 64" and e: "e < 64" and d: "d < 64" by (simp_all add: b_def d_def e_def)
  have c: "c = a * 262144 + b * 4096 + e * 64 + d"
    unfolding a_def b_def d_def e_def by (rule split4)
  have a: "a < 5" using assms(2) c by linarith
  have a0: "a = 0 \<longrightarrow> 16 \<le> b" using assms(1) c d e by linarith
  have a4: "a = 4 \<longrightarrow> b < 16" using assms(2) c by linarith
  have "utf8_encode_cp c =
       [byte_of (0xF0 + a), byte_of (0x80 + b), byte_of (0x80 + e), byte_of (0x80 + d)]"
    using assms by (simp add: utf8_encode_cp_def a_def b_def d_def e_def)
  then show ?thesis using a b e d a0 a4 that by blast
qed

lemma cut2: "2 \<le> a \<Longrightarrow> a < 32 \<Longrightarrow> utf8_step (byte_of (0xC0 + a)) [] = (0xFFFD, 0)"
  by (simp add: utf8_step_def unat_byte_of)

lemma cut3_1: "a < 16 \<Longrightarrow> utf8_step (byte_of (0xE0 + a)) [] = (0xFFFD, 0)"
  by (simp add: utf8_step_def unat_byte_of)

lemma cut3_2:
  assumes "a < 16" "b < 64" "a = 0 \<longrightarrow> 32 \<le> b" "a = 13 \<longrightarrow> b < 32"
  shows "utf8_step (byte_of (0xE0 + a)) [byte_of (0x80 + b)] = (0xFFFD, 1)"
proof -
  have u: "unat (byte_of (0xE0 + a)) = 0xE0 + a" using assms(1) by (simp add: unat_byte_of)
  have g: "b < 32 \<Longrightarrow> 0 < a" "\<not> b < 32 \<Longrightarrow> a \<noteq> 13"
    using assms(3,4) by arith+
  show ?thesis
    using assms(1,2) g by (simp add: utf8_step_def Let_def u cont_byte cont_byte_unat)
qed

lemma cut4_1: "a < 5 \<Longrightarrow> utf8_step (byte_of (0xF0 + a)) [] = (0xFFFD, 0)"
  by (simp add: utf8_step_def unat_byte_of)

lemma cut4_2:
  assumes "a < 5" "b < 64" "a = 0 \<longrightarrow> 16 \<le> b" "a = 4 \<longrightarrow> b < 16"
  shows "utf8_step (byte_of (0xF0 + a)) [byte_of (0x80 + b)] = (0xFFFD, 1)"
proof -
  have u: "unat (byte_of (0xF0 + a)) = 0xF0 + a" using assms(1) by (simp add: unat_byte_of)
  have g: "b < 16 \<Longrightarrow> 0 < a" "\<not> b < 16 \<Longrightarrow> a \<noteq> 4"
    using assms(3,4) by arith+
  show ?thesis
    using assms(1,2) g by (simp add: utf8_step_def Let_def u cont_byte cont_byte_unat)
qed

lemma cut4_3:
  assumes "a < 5" "b < 64" "e < 64" "a = 0 \<longrightarrow> 16 \<le> b" "a = 4 \<longrightarrow> b < 16"
  shows "utf8_step (byte_of (0xF0 + a)) [byte_of (0x80 + b), byte_of (0x80 + e)] = (0xFFFD, 2)"
proof -
  have u: "unat (byte_of (0xF0 + a)) = 0xF0 + a" using assms(1) by (simp add: unat_byte_of)
  have g: "b < 16 \<Longrightarrow> 0 < a" "\<not> b < 16 \<Longrightarrow> a \<noteq> 4"
    using assms(4,5) by arith+
  show ?thesis
    using assms(1-3) g by (simp add: utf8_step_def Let_def u cont_byte cont_byte_unat)
qed

lemma decode_cut_off:
  assumes "is_scalar c" "0 < n" "n < length (utf8_encode_cp c)"
  shows "utf8_decode_replace (take n (utf8_encode_cp c)) = [0xFFFD]"
proof -
  consider "c < 0x80" | "0x80 \<le> c" "c < 0x800" | "0x800 \<le> c" "c < 0x10000"
    | "0x10000 \<le> c" "c \<le> 0x10FFFF"
    using assms(1) by (auto simp add: is_scalar_def) arith
  then show ?thesis
  proof cases
    case 1
    then show ?thesis using assms(2,3) by (simp add: utf8_encode_cp_def)
  next
    case 2
    then obtain a d where s: "utf8_encode_cp c = [byte_of (0xC0 + a), byte_of (0x80 + d)]"
      and a: "2 \<le> a" "a < 32"
      by (rule shape2)
    have "n = 1" using assms(2,3) s by simp
    then show ?thesis by (simp add: s cut2 [OF a])
  next
    case 3
    moreover have "\<not> is_surrogate c" using assms(1) by (simp add: is_scalar_def)
    ultimately obtain a b d where
      s: "utf8_encode_cp c = [byte_of (0xE0 + a), byte_of (0x80 + b), byte_of (0x80 + d)]"
      and a: "a < 16" and b: "b < 64" and o: "a = 0 \<longrightarrow> 32 \<le> b" "a = 13 \<longrightarrow> b < 32"
      by (rule shape3)
    consider "n = 1" | "n = 2" using assms(2,3) s by (simp add: less_Suc_eq) arith
    then show ?thesis
    proof cases
      case 1
      then show ?thesis by (simp add: s cut3_1 [OF a])
    next
      case 2
      then show ?thesis by (simp add: s cut3_2 [OF a b o])
    qed
  next
    case 4
    then obtain a b e d where
      s: "utf8_encode_cp c =
            [byte_of (0xF0 + a), byte_of (0x80 + b), byte_of (0x80 + e), byte_of (0x80 + d)]"
      and a: "a < 5" and b: "b < 64" and e: "e < 64"
      and o: "a = 0 \<longrightarrow> 16 \<le> b" "a = 4 \<longrightarrow> b < 16"
      by (rule shape4)
    consider "n = 1" | "n = 2" | "n = 3" using assms(2,3) s by (simp add: less_Suc_eq) arith
    then show ?thesis
    proof cases
      case 1
      then show ?thesis by (simp add: s cut4_1 [OF a])
    next
      case 2
      then show ?thesis by (simp add: s cut4_2 [OF a b o])
    next
      case 3
      then show ?thesis by (simp add: s cut4_3 [OF a b e o])
    qed
  qed
qed

lemma decode_ill_formed_examples:
  "utf8_decode_replace [0xC3] = [0xFFFD]"
  "utf8_decode_replace [0xE2, 0x82] = [0xFFFD]"
  "utf8_decode_replace [0xF0, 0x9F, 0x98] = [0xFFFD]"
  "utf8_decode_replace [0xC3, 0x41] = [0xFFFD, 0x41]"
  "utf8_decode_replace [0xE2, 0x41] = [0xFFFD, 0x41]"
  "utf8_decode_replace [0xE2, 0x82, 0x41] = [0xFFFD, 0x41]"
  "utf8_decode_replace [0xF0, 0x9F, 0x98, 0x41] = [0xFFFD, 0x41]"
  "utf8_decode_replace [0x80] = [0xFFFD]"
  "utf8_decode_replace [0xC0, 0x80] = [0xFFFD, 0xFFFD]"
  "utf8_decode_replace [0xE0, 0x80, 0x80] = [0xFFFD, 0xFFFD, 0xFFFD]"
  "utf8_decode_replace [0xED, 0xA0, 0x80] = [0xFFFD, 0xFFFD, 0xFFFD]"
  "utf8_decode_replace [0xF4, 0x90, 0x80, 0x80] = [0xFFFD, 0xFFFD, 0xFFFD, 0xFFFD]"
  "utf8_decode_replace [0xF5] = [0xFFFD]"
  "utf8_decode_replace [0x68, 0xC3, 0xA9, 0xE2, 0x82, 0xAC, 0xF0, 0x9F, 0x98, 0x80]
     = [0x68, 0xE9, 0x20AC, 0x1F600]"
  by (simp_all add: utf8_step_def is_cont_def cp2_def cp3_def cp4_def)

section \<open>The degraded response\<close>

lemma degraded_upload_200:
  assumes "\<not> truthy (LUAOBFUSCATOR_API_KEY cfg)"
    and "list_all (\<lambda>c. c < 256) (out_name requested (fst (incoming (Some f) script)))"
  shows "\<exists>body. fst (obfuscate cfg env (Some f) script requested) =
           StreamingResponse body (ascii ''text/plain'')
             [content_disposition (out_name requested (fst (incoming (Some f) script)))]"
proof -
  obtain bs' where e: "utf8_encode (utf8_decode_replace (contents f)) = Inr bs'"
    using utf8_encode_decoded by blast
  have c: "snd (incoming (Some f) script) = utf8_decode_replace (contents f)"
    by (simp add: incoming_def)
  have h: "new_StreamingResponse bs' (ascii ''text/plain'')
             [content_disposition (out_name requested (fst (incoming (Some f) script)))]
           = Inr (StreamingResponse bs' (ascii ''text/plain'')
                    [content_disposition (out_name requested (fst (incoming (Some f) script)))])"
    using assms(2) by (simp add: new_StreamingResponse_def content_disposition_def ascii_def)
  show ?thesis
    by (simp add: obfuscate_fst obfuscate_try_fst c e encode_result_def
        obfuscate_script_unconfigured [OF assms(1)] h)
qed

text \<open>
  Claim C1, as amended. Without a configured key, the body of every 200 response is
  the UTF-8 encoding of the text of the submission: of the pasted text, or, for an
  uploaded file, of its octets decoded with replacement. For an uploaded file the
  body therefore equals the uploaded octets exactly when these are well-formed UTF-8,
  that is, the encoding of some text. An upload that is not well-formed does not come
  back unchanged: its decoded text contains U+FFFD, and the body holds the octets
  EF BF BD. In particular an upload that is well-formed up to a character cut off at
  its end comes back as the well-formed part followed by EF BF BD.
\<close>

theorem degraded_body_roundtrip:
  assumes "\<not> truthy (LUAOBFUSCATOR_API_KEY cfg)"
    and "fst (obfuscate cfg env file script requested) = StreamingResponse body mt hdrs"
  shows
    "(file = None \<longrightarrow> (\<exists>t. script = Some t \<and> utf8_encode t = Inr body)) \<and>
     (file = Some f \<longrightarrow>
        utf8_encode (utf8_decode_replace (contents f)) = Inr body \<and>
        (body = contents f \<longleftrightarrow> (\<exists>t. utf8_encode t = Inr (contents f))) \<and>
        (body \<noteq> contents f \<longrightarrow>
           0xFFFD \<in> set (utf8_decode_replace (contents f)) \<and>
           (\<exists>pre post. body = pre @ [0xEF, 0xBF, 0xBD] @ post)) \<and>
        (utf8_encode t = Inr bs \<and> is_scalar c \<and> 0 < n \<and> n < length (utf8_encode_cp c) \<and>
         contents f = bs @ take n (utf8_encode_cp c)
           \<longrightarrow> body = bs @ [0xEF, 0xBF, 0xBD]))"
proof -
  have src: "file \<noteq> None \<or> truthy script"
    and enc: "utf8_encode (snd (incoming file script)) = Inr body"
    using obfuscate_200 [OF assms(2)] obfuscate_script_unconfigured [OF assms(1)]
    by (simp_all add: encode_result_def)
  have pasted: "\<exists>t. script = Some t \<and> utf8_encode t = Inr body" if none: "file = None"
  proof -
    obtain t where t: "script = Some t" "t \<noteq> []"
      using src none by (cases script) (auto simp add: truthy_def)
    then have "snd (incoming file script) = t"
      using none by (simp add: incoming_def str_or_def)
    then show ?thesis using enc t by simp
  qed
  have upload:
    "utf8_encode (utf8_decode_replace (contents f)) = Inr body \<and>
     (body = contents f \<longleftrightarrow> (\<exists>t. utf8_encode t = Inr (contents f))) \<and>
     (body \<noteq> contents f \<longrightarrow>
        0xFFFD \<in> set (utf8_decode_replace (contents f)) \<and>
        (\<exists>pre post. body = pre @ [0xEF, 0xBF, 0xBD] @ post)) \<and>
     (utf8_encode t = Inr bs \<and> is_scalar c \<and> 0 < n \<and> n < length (utf8_encode_cp c) \<and>
      contents f = bs @ take n (utf8_encode_cp c)
        \<longrightarrow> body = bs @ [0xEF, 0xBF, 0xBD])"
    if "file = Some f"
  proof -
    let ?raw = "contents f"
    have e: "utf8_encode (utf8_decode_replace ?raw) = Inr body"
      using enc that by (simp add: incoming_def)
    then have b: "body = concat (map utf8_encode_cp (utf8_decode_replace ?raw))"
      by (simp add: utf8_encode_def split: if_splits)
    have same: "body = ?raw \<longleftrightarrow> (\<exists>t. utf8_encode t = Inr ?raw)"
    proof
      assume "body = ?raw"
      then show "\<exists>t. utf8_encode t = Inr ?raw" using e by blast
    next
      assume "\<exists>t. utf8_encode t = Inr ?raw"
      then obtain t where t: "utf8_encode t = Inr ?raw" ..
      then have "utf8_decode_replace ?raw = t" by (rule utf8_roundtrip)
      then show "body = ?raw" using e t by simp
    qed
    have changed: "0xFFFD \<in> set (utf8_decode_replace ?raw) \<and>
        (\<exists>pre post. body = pre @ [0xEF, 0xBF, 0xBD] @ post)" if "body \<noteq> ?raw"
    proof -
      have "\<not> (\<exists>t. utf8_encode t = Inr ?raw)" using that same by simp
      then have "0xFFFD \<in> set (utf8_decode_replace ?raw)" by (rule ill_formed_replaced)
      then show ?thesis using encoded_replacement [of "utf8_decode_replace ?raw"] b by simp
    qed
    have cut: "body = bs @ [0xEF, 0xBF, 0xBD]"
      if "utf8_encode t = Inr bs" "is_scalar c" "0 < n" "n < length (utf8_encode_cp c)"
        "?raw = bs @ take n (utf8_encode_cp c)"
    proof -
      have s: "list_all is_scalar t" and bs: "bs = concat (map utf8_encode_cp t)"
        using that(1) by (simp_all add: utf8_encode_def split: if_splits)
      have "utf8_decode_replace ?raw = t @ [0xFFFD]"
        unfolding that(5) bs
        using decode_encode_append [OF s] decode_cut_off [OF that(2-4)] by simp
      then show ?thesis
        using b bs by (simp add: encode_cp_replacement)
    qed
    from e same changed cut show ?thesis by blast
  qed
  from pasted upload show ?thesis by blast
qed

theorem degraded_body_roundtrip_witness:
  "\<not> truthy (LUAOBFUSCATOR_API_KEY no_config) \<and>
   utf8_encode (ascii ''print(hi)'') = Inr (contents test_lua) \<and>
   fst (obfuscate no_config offline (Some test_lua) None None) =
     StreamingResponse (contents test_lua) (ascii ''text/plain'')
       [content_disposition (ascii ''obfuscated_test.lua'')] \<and>
   utf8_encode (ascii ''x=1'') = Inr (map byte_of (ascii ''x=1'')) \<and> is_scalar 0x20AC \<and>
   (0::nat) < 2 \<and> 2 < length (utf8_encode_cp 0x20AC) \<and>
   contents cut_lua = map byte_of (ascii ''x=1'') @ take 2 (utf8_encode_cp 0x20AC) \<and>
   fst (obfuscate no_config offline (Some cut_lua) None None) =
     StreamingResponse (map byte_of (ascii ''x=1'') @ [0xEF, 0xBF, 0xBD]) (ascii ''text/plain'')
       [content_disposition (ascii ''obfuscated_a.lua'')] \<and>
   fst (obfuscate no_config offline None (Some (ascii ''x=1'')) None) =
     StreamingResponse (map byte_of (ascii ''x=1'')) (ascii ''text/plain'')
       [content_disposition (ascii ''obfuscated_pasted_script.lua'')]"
proof -
  have k: "\<not> truthy (LUAOBFUSCATOR_API_KEY no_config)"
    by (simp add: truthy_def no_config_def)
  have o: "out_name None (ascii ''test.lua'') = ascii ''obfuscated_test.lua''"
    "out_name None (ascii ''a.lua'') = ascii ''obfuscated_a.lua''"
    using out_name_kept(2) [of "ascii ''.lua''" "ascii ''test''"]
      out_name_kept(2) [of "ascii ''.lua''" "ascii ''a''"]
    by (simp_all add: py_lower_suffixes) (simp_all add: ascii_def)
  have n: "fst (incoming (Some test_lua) None) = ascii ''test.lua''"
    "fst (incoming (Some cut_lua) None) = ascii ''a.lua''"
    by (simp_all add: incoming_def str_or_def test_lua_def cut_lua_def ascii_def)
  have l: "list_all (\<lambda>c. c < 256) (ascii ''obfuscated_test.lua'')"
    "list_all (\<lambda>c. c < 256) (ascii ''obfuscated_a.lua'')"
    by (simp_all add: ascii_def)
  obtain body1 where b1: "fst (obfuscate no_config offline (Some test_lua) None None) =
      StreamingResponse body1 (ascii ''text/plain'')
        [content_disposition (ascii ''obfuscated_test.lua'')]"
    using degraded_upload_200 [OF k, of None test_lua None offline] l(1) by (auto simp add: n o)
  obtain body2 where b2: "fst (obfuscate no_config offline (Some cut_lua) None None) =
      StreamingResponse body2 (ascii ''text/plain'')
        [content_disposition (ascii ''obfuscated_a.lua'')]"
    using degraded_upload_200 [OF k, of None cut_lua None offline] l(2) by (auto simp add: n o)
  have e1: "utf8_encode (ascii ''print(hi)'') = Inr (contents test_lua)"
    by (simp add: test_lua_def utf8_encode_def utf8_encode_cp_def is_scalar_def
        is_surrogate_def ascii_def)
  have e2: "utf8_encode (ascii ''x=1'') = Inr (map byte_of (ascii ''x=1''))"
    by (simp add: utf8_encode_def utf8_encode_cp_def is_scalar_def is_surrogate_def ascii_def)
  have c: "is_scalar 0x20AC" "(0::nat) < 2" "2 < length (utf8_encode_cp 0x20AC)"
    "contents cut_lua = map byte_of (ascii ''x=1'') @ take 2 (utf8_encode_cp 0x20AC)"
    by (simp_all add: is_scalar_def is_surrogate_def utf8_encode_cp_def cut_lua_def byte_of_def)
  have i3: "incoming None (Some (ascii ''x=1'')) = (ascii ''pasted_script.lua'', ascii ''x=1'')"
    by (simp add: incoming_def str_or_def ascii_def)
  have h3: "new_StreamingResponse (map byte_of (ascii ''x=1'')) (ascii ''text/plain'')
              [content_disposition (ascii ''obfuscated_pasted_script.lua'')]
            = Inr (StreamingResponse (map byte_of (ascii ''x=1'')) (ascii ''text/plain'')
                     [content_disposition (ascii ''obfuscated_pasted_script.lua'')])"
    by (simp add: new_StreamingResponse_def content_disposition_def ascii_def)
  have t3: "truthy (Some (ascii ''x=1''))"
    by (simp add: truthy_def ascii_def)
  have "\<exists>body. fst (obfuscate no_config offline None (Some (ascii ''x=1'')) None) =
      StreamingResponse body (ascii ''text/plain'')
        [content_disposition (ascii ''obfuscated_pasted_script.lua'')]"
    by (simp add: obfuscate_fst obfuscate_try_fst i3 t3 obfuscate_script_unconfigured [OF k]
        encode_result_def e2 default_names h3)
  then obtain body3 where b3: "fst (obfuscate no_config offline None (Some (ascii ''x=1'')) None) =
      StreamingResponse body3 (ascii ''text/plain'')
        [content_disposition (ascii ''obfuscated_pasted_script.lua'')]" ..
  have "utf8_encode (ascii ''x=1'') = Inr body3"
    using degraded_body_roundtrip [OF k b3] by simp
  then have "body3 = map byte_of (ascii ''x=1'')"
    using e2 by simp
  moreover have "body1 = contents test_lua"
    using degraded_body_roundtrip [OF k b1, of test_lua] e1 by blast
  moreover have "body2 = map byte_of (ascii ''x=1'') @ [0xEF, 0xBF, 0xBD]"
    using degraded_body_roundtrip [OF k b2, of cut_lua "ascii ''x=1''"
        "map byte_of (ascii ''x=1'')" "0x20AC" 2] e2 c
    by blast
  ultimately show ?thesis using k e1 e2 c b1 b2 b3 by simp
qed

text \<open>
  Claim C1 as it was stated fails for an upload that is not well-formed UTF-8: the
  single octet FF is decoded to U+FFFD, and the 200 response carries the three octets
  EF BF BD.
\<close>

theorem degraded_body_counterexample:
  "fst (obfuscate no_config offline (Some broken_lua) None None) =
     StreamingResponse [0xEF, 0xBF, 0xBD] (ascii ''text/plain'')
       [content_disposition (ascii ''obfuscated_a.lua'')] \<and>
   contents broken_lua = [0xFF] \<and> [0xEF, 0xBF, 0xBD] \<noteq> contents broken_lua"
proof -
  have k: "\<not> truthy (LUAOBFUSCATOR_API_KEY no_config)"
    by (simp add: truthy_def no_config_def)
  have i: "incoming (Some broken_lua) None = (ascii ''a.lua'', [0xFFFD])"
    by (simp add: incoming_def broken_lua_def str_or_def utf8_step_def ascii_def)
  have e: "utf8_encode [0xFFFD] = Inr [0xEF, 0xBF, 0xBD]"
    by (simp add: utf8_encode_def utf8_encode_cp_def is_scalar_def is_surrogate_def
        byte_of_def)
  have o: "out_name None (ascii ''a.lua'') = ascii ''obfuscated_a.lua''"
    using out_name_kept(2) [of "ascii ''.lua''" "ascii ''a''"]
    by (simp add: py_lower_suffixes) (simp add: ascii_def)
  have h: "new_StreamingResponse [0xEF, 0xBF, 0xBD] (ascii ''text/plain'')
             [content_disposition (ascii ''obfuscated_a.lua'')]
           = Inr (StreamingResponse [0xEF, 0xBF, 0xBD] (ascii ''text/plain'')
                    [content_disposition (ascii ''obfuscated_a.lua'')])"
    by (simp add: new_StreamingResponse_def content_disposition_def ascii_def)
  have "fst (obfuscate no_config offline (Some broken_lua) None None) =
     StreamingResponse [0xEF, 0xBF, 0xBD] (ascii ''text/plain'')
       [content_disposition (ascii ''obfuscated_a.lua'')]"
    by (simp add: obfuscate_fst obfuscate_try_fst i obfuscate_script_unconfigured [OF k]
        encode_result_def e o h)
  then show ?thesis by (simp add: broken_lua_def)
qed

section \<open>The statements at concrete submissions\<close>

lemma working_exchange:
  "obfuscate_script full_config working (ascii ''x=1'') =
     (Inr (JStr (ascii ''return 1'')),
      [NewscriptPost (ascii ''key'') (ascii ''x=1''),
       ObfuscatePost (ascii ''key'') (JStr (ascii ''s1''))])"
  by (simp add: obfuscate_script_def obfuscate_script_try_def full_config_def working_def
      reply_def py_get_def Let_def ascii_def)

lemma working_response:
  "obfuscate full_config working None (Some (ascii ''x=1'')) (Some (ascii ''out'')) =
     (StreamingResponse (map byte_of (ascii ''return 1'')) (ascii ''text/plain'')
        [content_disposition (ascii ''out.lua'')],
      [SessionOpen 30,
       Call_send_to_webhook (ascii ''pasted_script.lua'') (ascii ''x=1''),
       WebhookPost (ascii ''http://hook'') (ascii ''pasted_script.lua'')
         (map byte_of (ascii ''x=1'')),
       Call_obfuscate_script (ascii ''x=1''),
       NewscriptPost (ascii ''key'') (ascii ''x=1''),
       ObfuscatePost (ascii ''key'') (JStr (ascii ''s1'')),
       SessionClose])"
proof -
  have i: "incoming None (Some (ascii ''x=1'')) = (ascii ''pasted_script.lua'', ascii ''x=1'')"
    by (simp add: incoming_def str_or_def ascii_def)
  have e: "utf8_encode (ascii ''x=1'') = Inr (map byte_of (ascii ''x=1''))"
    "utf8_encode (ascii ''return 1'') = Inr (map byte_of (ascii ''return 1''))"
    by (simp_all add: utf8_encode_def utf8_encode_cp_def is_scalar_def is_surrogate_def
        ascii_def)
  have w: "send_to_webhook full_config working (ascii ''pasted_script.lua'') (ascii ''x=1'') =
             (Inr (), [WebhookPost (ascii ''http://hook'') (ascii ''pasted_script.lua'')
                         (map byte_of (ascii ''x=1''))])"
  proof -
    have "send_to_webhook_try working url name (ascii ''x=1'') =
            (Inr (), [WebhookPost url name (map byte_of (ascii ''x=1''))])" for url name
      by (simp add: send_to_webhook_try_def e working_def reply_def)
    moreover have "ascii ''http://hook'' \<noteq> []"
      by (simp add: ascii_def)
    ultimately show ?thesis
      by (simp add: send_to_webhook_def full_config_def)
  qed
  have o: "out_name (Some (ascii ''out'')) (ascii ''pasted_script.lua'') = ascii ''out.lua''"
    by (simp add: out_name_def str_or_def py_endswith_def py_lower_def lower_cp_def
        ascii_def suffix_to_prefix)
  have h: "new_StreamingResponse (map byte_of (ascii ''return 1'')) (ascii ''text/plain'')
             [content_disposition (ascii ''out.lua'')]
           = Inr (StreamingResponse (map byte_of (ascii ''return 1'')) (ascii ''text/plain'')
                    [content_disposition (ascii ''out.lua'')])"
    by (simp add: new_StreamingResponse_def content_disposition_def ascii_def)
  have t: "truthy (Some (ascii ''x=1''))"
    by (simp add: truthy_def ascii_def)
  show ?thesis
    by (simp add: obfuscate_def obfuscate_try_def i w working_exchange encode_result_def e o h t)
qed

theorem empty_string_is_absent_witness:
  "obfuscate no_config offline None (Some []) None = (HTMLResponse no_input_page 400, []) \<and>
   obfuscate full_config working None (Some (ascii ''x=1'')) (Some []) =
     obfuscate full_config working None (Some (ascii ''x=1'')) None"
  using empty_string_is_absent [of no_config offline None]
    empty_string_is_absent [of full_config working _ None "Some (ascii ''x=1'')"]
  by blast

theorem no_input_is_400_witness:
  "obfuscate no_config offline None None None = (HTMLResponse no_input_page 400, []) \<and>
   truthy (Some (ascii ''x=1'')) \<and>
   status_code (fst (obfuscate full_config working None (Some (ascii ''x=1''))
                       (Some (ascii ''out'')))) \<noteq> 400"
proof -
  have t: "truthy (Some (ascii ''x=1''))"
    by (simp add: truthy_def ascii_def)
  from no_input_is_400 [of None None no_config offline None]
    no_input_is_400 [of None "Some (ascii ''x=1'')" full_config working "Some (ascii ''out'')"] t
  show ?thesis by blast
qed

theorem webhook_never_alters_response_witness:
  "fst (send_to_webhook full_config offline (ascii ''a.lua'') (ascii ''x=1'')) = Inr () \<and>
   fst (obfuscate (full_config\<lparr>WEBHOOK_URL := None\<rparr>)
          (working\<lparr>webhook_post := (\<lambda>url name body. refused)\<rparr>)
          None (Some (ascii ''x=1'')) (Some (ascii ''out'')))
     = StreamingResponse (map byte_of (ascii ''return 1'')) (ascii ''text/plain'')
         [content_disposition (ascii ''out.lua'')]"
  using webhook_never_alters_response [of full_config offline "ascii ''a.lua''" "ascii ''x=1''"]
    webhook_never_alters_response [of full_config working _ _ None
      "\<lambda>url name body. refused" None "Some (ascii ''x=1'')" "Some (ascii ''out'')"]
  by (simp add: working_response)


end
